theory Spec2Isabelle
  imports Complex_Main "HOL-Library.AList" "HOL-Library.Char_ord" "HOL-Library.List_Lexorder"
begin

section \<open>SARIF data model (src/types/sarif.ts)\<close>

text \<open>
  Strings are lists of code units (\<open>char\<close>, so code units up to 255; every character the
  code tests for is ASCII); an optional field \<open>f?: T\<close> is a field of type \<open>T option\<close>,
  \<open>None\<close> standing for \<open>undefined\<close>. The nested objects \<^verbatim>\<open>tool.driver\<close>,
  \<^verbatim>\<open>message\<close>, \<^verbatim>\<open>shortDescription\<close> and \<^verbatim>\<open>artifactLocation\<close> each hold one
  value and are flattened into it.
\<close>

record Region =
  startLine :: nat
  startColumn :: "nat option"
  endLine :: "nat option"
  endColumn :: "nat option"

record PhysicalLocation =
  artifactLocation :: "string option"
  region :: "Region option"

record Location =
  physicalLocation :: "PhysicalLocation option"

record Result =
  ruleId :: string
  message :: string
  locations :: "Location list option"
  level :: "string option"

record DefaultConfiguration =
  cfg_level :: "string option"

record Properties =
  tags :: "string list option"

record Rule =
  rule_id :: string
  rule_name :: "string option"
  shortDescription :: "string option"
  defaultConfiguration :: "DefaultConfiguration option"
  properties :: "Properties option"

record Run =
  driver_name :: string
  rules :: "Rule list option"
  run_results :: "Result list"

record SarifLog =
  version :: string
  runs :: "Run list"

section \<open>JavaScript values the code relies on\<close>

subsection \<open>Plain objects used as dictionaries\<close>

text \<open>
  A \<^verbatim>\<open>Record<string, V>\<close> created by the literal \<^verbatim>\<open>{}\<close> is an association list of
  its own properties in insertion order. Reading \<^verbatim>\<open>obj[key]\<close> looks at the own
  properties first and then at \<^verbatim>\<open>Object.prototype\<close>, whose members (functions, and the
  prototype object itself for \<^verbatim>\<open>__proto__\<close>) are all truthy and have no \<^verbatim>\<open>push\<close>.
\<close>

type_synonym 'v js_obj = "(string \<times> 'v) list"

definition object_prototype_keys :: "string list" where
  "object_prototype_keys =
     [''constructor'', ''hasOwnProperty'', ''isPrototypeOf'', ''propertyIsEnumerable'',
      ''toLocaleString'', ''toString'', ''valueOf'', ''__proto__'',
      ''__defineGetter__'', ''__defineSetter__'', ''__lookupGetter__'', ''__lookupSetter__'']"

datatype 'v js_prop = Own 'v | Inherited | Absent

definition obj_get :: "'v js_obj \<Rightarrow> string \<Rightarrow> 'v js_prop" where
  "obj_get obj k =
     (case map_of obj k of
        Some v \<Rightarrow> Own v
      | None \<Rightarrow> if k \<in> set object_prototype_keys then Inherited else Absent)"

text \<open>
  \<^verbatim>\<open>Object.entries\<close> and \<^verbatim>\<open>Object.keys\<close> list the own properties whose key is an array
  index (a canonical decimal numeral below \<open>2^32 - 1\<close>) in ascending numeric order
  first, then the other keys in insertion order.
\<close>

definition isDigit :: "char \<Rightarrow> bool" where
  "isDigit c = (c \<in> set ''0123456789'')"

definition digit_value :: "char \<Rightarrow> int" where
  "digit_value c = of_char c - 48"

definition decimal_value :: "string \<Rightarrow> int" where
  "decimal_value s = foldl (\<lambda>n c. 10 * n + digit_value c) 0 s"

definition is_array_index :: "string \<Rightarrow> bool" where
  "is_array_index s =
     (s \<noteq> [] \<and> list_all isDigit s \<and> (hd s = CHR ''0'' \<longrightarrow> length s = 1)
      \<and> decimal_value s < 4294967295)"

definition object_entries :: "'v js_obj \<Rightarrow> (string \<times> 'v) list" where
  "object_entries obj =
     sort_key (\<lambda>e. decimal_value (fst e)) (filter (\<lambda>e. is_array_index (fst e)) obj)
     @ filter (\<lambda>e. \<not> is_array_index (fst e)) obj"

definition object_keys :: "'v js_obj \<Rightarrow> string list" where
  "object_keys obj = map fst (object_entries obj)"

text \<open>\<^verbatim>\<open>[...new Set(xs)]\<close>: the distinct elements in order of first occurrence.\<close>

definition new_Set :: "'a list \<Rightarrow> 'a list" where
  "new_Set xs = foldl (\<lambda>acc x. if x \<in> set acc then acc else acc @ [x]) [] xs"

subsection \<open>String operations\<close>

definition startsWith :: "string \<Rightarrow> string \<Rightarrow> bool" where
  "startsWith s p = (take (length p) s = p)"

text \<open>
  \<^verbatim>\<open>s.match(/CWE[-:](\d+)/)\<close>: the pattern is tried at each offset from the left; at an
  offset it needs the letters \<open>CWE\<close>, one of \<open>-\<close> and \<open>:\<close>, and then takes the longest
  non-empty run of decimal digits, which is capture group 1.
\<close>

definition match_here :: "string \<Rightarrow> string option" where
  "match_here s =
     (case s of
        c1 # c2 # c3 # sep # rest \<Rightarrow>
          if c1 = CHR ''C'' \<and> c2 = CHR ''W'' \<and> c3 = CHR ''E''
             \<and> (sep = CHR ''-'' \<or> sep = CHR '':'') \<and> takeWhile isDigit rest \<noteq> []
          then Some (takeWhile isDigit rest) else None
      | _ \<Rightarrow> None)"

fun regex_match :: "string \<Rightarrow> string option" where
  "regex_match [] = None"
| "regex_match (c # cs) =
     (case match_here (c # cs) of Some ds \<Rightarrow> Some ds | None \<Rightarrow> regex_match cs)"

text \<open>\<^verbatim>\<open>s.replace(pat, rep)\<close> with a string pattern replaces the first occurrence only.\<close>

fun js_replace :: "string \<Rightarrow> string \<Rightarrow> string \<Rightarrow> string" where
  "js_replace pat rep [] = (if pat = [] then rep else [])"
| "js_replace pat rep (c # cs) =
     (if startsWith (c # cs) pat then rep @ drop (length pat) (c # cs)
      else c # js_replace pat rep cs)"

text \<open>
  \<^verbatim>\<open>s.trim()\<close> removes white space and line terminators at both ends; among the code
  units below 256 these are tab, LF, VT, FF, CR, space and the no-break space.
\<close>

definition isSpace :: "char \<Rightarrow> bool" where
  "isSpace c = (of_char c \<in> {9, 10, 11, 12, 13, 32, 160 :: nat})"

definition trim :: "string \<Rightarrow> string" where
  "trim s = rev (dropWhile isSpace (rev (dropWhile isSpace s)))"

text \<open>\<^verbatim>\<open>s.toLowerCase()\<close> on code units below 256 (A-Z, and \<open>0xC0\<close>-\<open>0xDE\<close> but \<open>0xD7\<close>).\<close>

definition lower_char :: "char \<Rightarrow> char" where
  "lower_char c =
     (let n = (of_char c :: nat)
      in if (65 \<le> n \<and> n \<le> 90) \<or> (192 \<le> n \<and> n \<le> 222 \<and> n \<noteq> 215)
         then char_of (n + 32) else c)"

definition toLowerCase :: "string \<Rightarrow> string" where
  "toLowerCase s = map lower_char s"

datatype js_error = TypeError

section \<open>Finding Store (App, handleFileUpload)\<close>

text \<open>
  \<^verbatim>\<open>
  const grouped = results.reduce((acc, result) => {
    const ruleId = result.ruleId;
    if (!acc[ruleId]) { acc[ruleId] = []; }
    acc[ruleId].push(result);
    return acc;
  }, {} as Record<string, Result[]>);
  \<close>
  An own property holds an array, which is truthy even when empty. An inherited member
  of \<^verbatim>\<open>Object.prototype\<close> is truthy as well, so it is not replaced, and calling its
  missing \<^verbatim>\<open>push\<close> throws a \<^verbatim>\<open>TypeError\<close>.
\<close>

definition group_step :: "Result list js_obj \<Rightarrow> Result \<Rightarrow> js_error + Result list js_obj" where
  "group_step acc result =
     (case obj_get acc (ruleId result) of
        Absent \<Rightarrow> Inr (AList.update (ruleId result) [result] acc)
      | Own its \<Rightarrow> Inr (AList.update (ruleId result) (its @ [result]) acc)
      | Inherited \<Rightarrow> Inl TypeError)"

fun group_reduce :: "Result list js_obj \<Rightarrow> Result list \<Rightarrow> js_error + Result list js_obj" where
  "group_reduce acc [] = Inr acc"
| "group_reduce acc (result # rest) =
     (case group_step acc result of Inl e \<Rightarrow> Inl e | Inr acc' \<Rightarrow> group_reduce acc' rest)"

definition grouped :: "Run \<Rightarrow> js_error + Result list js_obj" where
  "grouped run = group_reduce [] (run_results run)"

record Sarif =
  results :: "Result list js_obj"
  run :: Run

text \<open>
  \<^verbatim>\<open>handleFileUpload(sarifData, index)\<close> reads \<^verbatim>\<open>sarifData.runs[0]\<close> (reading
  \<^verbatim>\<open>results\<close> of \<^verbatim>\<open>undefined\<close> throws when there is no run), groups its results and
  stores the dataset in slot \<open>index\<close> of the state.
\<close>

definition set_slot :: "'a option list \<Rightarrow> nat \<Rightarrow> 'a \<Rightarrow> 'a option list" where
  "set_slot xs i v =
     (if i < length xs then xs[i := Some v] else xs @ replicate (i - length xs) None @ [Some v])"

definition handleFileUpload ::
  "Sarif option list \<Rightarrow> SarifLog \<Rightarrow> nat \<Rightarrow> js_error + Sarif option list" where
  "handleFileUpload sarifs sarifData index =
     (case runs sarifData of
        [] \<Rightarrow> Inl TypeError
      | r # _ \<Rightarrow>
          (case grouped r of
             Inl e \<Rightarrow> Inl e
           | Inr g \<Rightarrow> Inr (set_slot sarifs index \<lparr>results = g, run = r\<rparr>)))"

section \<open>Category Resolver (ComparisonView)\<close>

text \<open>
  \<^verbatim>\<open>
  const getCWEFromTags = (tags: string[]): string | null => {
    const cweTag = tags.find(tag => tag.startsWith('CWE:') || tag.startsWith('CWE-'));
    if (!cweTag) return null;
    const match = cweTag.match(/CWE[-:](\d+)/);
    if (!match) return null;
    return `CWE-${match[1]}`;
  };
  const getRuleTags = (run: Run, ruleId: string): string[] => {
    const rule = run.tool.driver.rules?.find(r => r.id === ruleId);
    return rule?.properties?.tags || [];
  };
  \<close>
\<close>

definition hasCWEPrefix :: "string \<Rightarrow> bool" where
  "hasCWEPrefix tag = (startsWith tag ''CWE:'' \<or> startsWith tag ''CWE-'')"

definition getCWEFromTags :: "string list \<Rightarrow> string option" where
  "getCWEFromTags tgs =
     (case find hasCWEPrefix tgs of
        None \<Rightarrow> None
      | Some cweTag \<Rightarrow>
          if cweTag = [] then None
          else (case regex_match cweTag of
                  None \<Rightarrow> None
                | Some ds \<Rightarrow> Some (''CWE-'' @ ds)))"

definition find_rule :: "Rule list option \<Rightarrow> string \<Rightarrow> Rule option" where
  "find_rule rs rid = (case rs of None \<Rightarrow> None | Some l \<Rightarrow> find (\<lambda>r. rule_id r = rid) l)"

definition rule_tags :: "Rule option \<Rightarrow> string list" where
  "rule_tags rule =
     (case rule of
        None \<Rightarrow> []
      | Some r \<Rightarrow>
          (case properties r of
             None \<Rightarrow> []
           | Some p \<Rightarrow> (case tags p of None \<Rightarrow> [] | Some ts \<Rightarrow> ts)))"

definition getRuleTags :: "Run \<Rightarrow> string \<Rightarrow> string list" where
  "getRuleTags rn rid = rule_tags (find_rule (rules rn) rid)"

section \<open>Category Aggregator (ComparisonView, groupByCWE)\<close>

record RuleGroup =
  grp_ruleId :: string
  items :: "Result list"

text \<open>
  \<^verbatim>\<open>
  Object.entries(results).forEach(([ruleId, items]) => {
    const tags = getRuleTags(run, ruleId);
    const cwe = getCWEFromTags(tags);
    if (cwe) {
      if (!cweGroups[cwe]) { cweGroups[cwe] = []; }
      cweGroups[cwe].push({ ruleId, items });
    }
  });
  \<close>
  Every key used here is built by the template \<^verbatim>\<open>CWE-${match[1]}\<close>; no member of
  \<^verbatim>\<open>Object.prototype\<close> has such a name (lemma \<open>cwe_key_not_inherited\<close> below), so
  \<^verbatim>\<open>cweGroups[cwe]\<close> is a lookup among the own properties.
\<close>

definition push_group :: "RuleGroup list js_obj \<Rightarrow> string \<Rightarrow> RuleGroup \<Rightarrow> RuleGroup list js_obj" where
  "push_group cweGroups c g =
     AList.update c ((case map_of cweGroups c of None \<Rightarrow> [] | Some gs \<Rightarrow> gs) @ [g]) cweGroups"

definition group_entry :: "Run \<Rightarrow> RuleGroup list js_obj \<Rightarrow> string \<times> Result list \<Rightarrow> RuleGroup list js_obj" where
  "group_entry rn cweGroups e =
     (case getCWEFromTags (getRuleTags rn (fst e)) of
        None \<Rightarrow> cweGroups
      | Some c \<Rightarrow>
          if c = [] then cweGroups
          else push_group cweGroups c \<lparr>grp_ruleId = fst e, items = snd e\<rparr>)"

definition groupByCWE :: "Result list js_obj \<Rightarrow> Run \<Rightarrow> RuleGroup list js_obj" where
  "groupByCWE res rn = foldl (group_entry rn) [] (object_entries res)"

section \<open>Comparison Engine (ComparisonView)\<close>

text \<open>
  \<^verbatim>\<open>
  const cweGroups = sarifs.map(sarif => groupByCWE(sarif.results, sarif.run));
  const allCWEs = [...new Set(cweGroups.flatMap(group => Object.keys(group)))].sort();
  \<close>
  The default \<^verbatim>\<open>sort()\<close> orders strings by their code units, lexicographically.
\<close>

definition cweGroups :: "Sarif list \<Rightarrow> RuleGroup list js_obj list" where
  "cweGroups sarifs = map (\<lambda>sarif. groupByCWE (results sarif) (run sarif)) sarifs"

definition allCWEs :: "Sarif list \<Rightarrow> string list" where
  "allCWEs sarifs = sort (new_Set (concat (map object_keys (cweGroups sarifs))))"

section \<open>Per-row metrics of the comparison (ComparisonView, summaryData)\<close>

text \<open>
  Finding counts are array lengths and sums of them (\<open>nat\<close>); a delta is a difference of
  two counts (\<open>int\<close>); an overlap percentage is a quotient, modelled as an exact \<open>real\<close>.

  \<^verbatim>\<open>const deltas = findings.slice(1).map((count, i) => count - findings[i]);\<close>
\<close>

definition calc_deltas :: "nat list \<Rightarrow> int list" where
  "calc_deltas findings =
     map (\<lambda>(i, count). int count - int (findings ! i)) (enumerate 0 (drop 1 findings))"

text \<open>
  \<^verbatim>\<open>
  const firstCount = findings[0];
  if (firstCount === 0 && count === 0) { return 0; }
  const overlap = Math.min(count, firstCount);
  const total = Math.max(count, firstCount);
  return total === 0 ? 0 : (overlap / total) * 100;
  \<close>
\<close>

definition overlap_pct :: "nat \<Rightarrow> nat \<Rightarrow> real" where
  "overlap_pct firstCount count =
     (if firstCount = 0 \<and> count = 0 then 0
      else let overlap = min count firstCount; total = max count firstCount
           in if total = 0 then 0 else (real overlap / real total) * 100)"

definition calc_overlaps :: "nat list \<Rightarrow> real list" where
  "calc_overlaps findings = map (\<lambda>count. overlap_pct (findings ! 0) count) (drop 1 findings)"

text \<open>
  \<^verbatim>\<open>
  const summaryData = allCWEs.map(cwe => {
    const findings = cweGroups.map(group =>
      group[cwe]?.reduce((sum, { items }) => sum + items.length, 0) || 0);
    ...
    return { cwe, findings, deltas, overlaps };
  });
  \<close>
\<close>

record ComparisonRow =
  cwe :: string
  findings :: "nat list"
  deltas :: "int list"
  overlaps :: "real list"

definition count_group :: "RuleGroup list js_obj \<Rightarrow> string \<Rightarrow> nat" where
  "count_group grp c =
     (case map_of grp c of
        None \<Rightarrow> 0
      | Some gs \<Rightarrow> foldl (\<lambda>sum g. sum + length (items g)) 0 gs)"

definition calc_findings :: "RuleGroup list js_obj list \<Rightarrow> string \<Rightarrow> nat list" where
  "calc_findings groups c = map (\<lambda>grp. count_group grp c) groups"

definition make_row :: "RuleGroup list js_obj list \<Rightarrow> string \<Rightarrow> ComparisonRow" where
  "make_row groups c =
     (let fs = calc_findings groups c
      in \<lparr>cwe = c, findings = fs, deltas = calc_deltas fs, overlaps = calc_overlaps fs\<rparr>)"

definition summaryData :: "Sarif list \<Rightarrow> ComparisonRow list" where
  "summaryData sarifs = map (make_row (cweGroups sarifs)) (allCWEs sarifs)"

text \<open>
  \<^verbatim>\<open>
  const averageOverlaps = summaryData[0]?.overlaps.map((_, index) => {
    const sum = summaryData.reduce((acc, data) => acc + data.overlaps[index], 0);
    return summaryData.length > 0 ? sum / summaryData.length : 0;
  }) || [];
  \<close>
  A number is \<open>Some\<close> of its value or \<open>None\<close> for \<^verbatim>\<open>NaN\<close>, which is what adding
  \<^verbatim>\<open>undefined\<close> (an index past the end of \<^verbatim>\<open>data.overlaps\<close>) gives.
\<close>

definition num_at :: "real list \<Rightarrow> nat \<Rightarrow> real option" where
  "num_at xs i = (if i < length xs then Some (xs ! i) else None)"

definition num_add :: "real option \<Rightarrow> real option \<Rightarrow> real option" where
  "num_add a b = (case (a, b) of (Some x, Some y) \<Rightarrow> Some (x + y) | _ \<Rightarrow> None)"

definition average_at :: "ComparisonRow list \<Rightarrow> nat \<Rightarrow> real option" where
  "average_at rows index =
     (let sum = foldl (\<lambda>acc data. num_add acc (num_at (overlaps data) index)) (Some 0) rows
      in if length rows > 0 then map_option (\<lambda>s. s / real (length rows)) sum else Some 0)"

definition averageOverlaps_of :: "ComparisonRow list \<Rightarrow> real option list" where
  "averageOverlaps_of rows =
     (case rows of
        [] \<Rightarrow> []
      | d0 # _ \<Rightarrow> map (average_at rows) [0..<length (overlaps d0)])"

definition averageOverlaps :: "Sarif list \<Rightarrow> real option list" where
  "averageOverlaps sarifs = averageOverlaps_of (summaryData sarifs)"

text \<open>
  \<^verbatim>\<open>
  const toolNames = sarifs.map(sarif => sarif.run.tool.driver.name);
  const overlapHeaders = toolNames.slice(1).map(name => `Overlap ${toolNames[0]} - ${name} %`);
  \<close>
  The table header of the view has the same columns: one overlap column for each dataset
  after the first.
\<close>

definition toolNames :: "Sarif list \<Rightarrow> string list" where
  "toolNames sarifs = map (\<lambda>sarif. driver_name (run sarif)) sarifs"

definition overlapHeaders :: "Sarif list \<Rightarrow> string list" where
  "overlapHeaders sarifs =
     map (\<lambda>name. ''Overlap '' @ toolNames sarifs ! 0 @ '' - '' @ name @ '' %'')
       (drop 1 (toolNames sarifs))"

section \<open>Per-rule summary (ResultsTable)\<close>

text \<open>
  \<^verbatim>\<open>
  const getCWEFromTags = (tags: string[]): string | null => {
    const cweTag = tags.find(tag => tag.startsWith('CWE:') || tag.startsWith('CWE-'));
    if (!cweTag) return null;
    return cweTag.replace('CWE:', 'CWE-').trim();
  };
  \<close>
\<close>

definition getCWEFromTags_table :: "string list \<Rightarrow> string option" where
  "getCWEFromTags_table tgs =
     (case find hasCWEPrefix tgs of
        None \<Rightarrow> None
      | Some cweTag \<Rightarrow>
          if cweTag = [] then None else Some (trim (js_replace ''CWE:'' ''CWE-'' cweTag)))"

text \<open>
  \<^verbatim>\<open>
  const ruleConfigurations = run?.tool.driver.rules?.reduce((acc, rule) => {
    if (rule.id && rule.defaultConfiguration?.level) {
      acc[rule.id] = rule.defaultConfiguration.level;
    }
    return acc;
  }, {} as Record<string, string>) || {};
  \<close>
  Assigning a string to \<^verbatim>\<open>acc['__proto__']\<close> runs the inherited setter, which ignores
  it; every other key becomes an own property.
\<close>

definition rule_default_level :: "Rule \<Rightarrow> string option" where
  "rule_default_level r =
     (case defaultConfiguration r of None \<Rightarrow> None | Some c \<Rightarrow> cfg_level c)"

definition config_step :: "string js_obj \<Rightarrow> Rule \<Rightarrow> string js_obj" where
  "config_step acc r =
     (case rule_default_level r of
        None \<Rightarrow> acc
      | Some l \<Rightarrow>
          if rule_id r \<noteq> [] \<and> l \<noteq> [] \<and> rule_id r \<noteq> ''__proto__''
          then AList.update (rule_id r) l acc else acc)"

definition ruleConfigurations :: "Run option \<Rightarrow> string js_obj" where
  "ruleConfigurations rn =
     (case rn of
        None \<Rightarrow> []
      | Some r \<Rightarrow> (case rules r of None \<Rightarrow> [] | Some rs \<Rightarrow> foldl config_step [] rs))"

text \<open>
  The rule-level severity, written three times in the source (comparator of
  \<^verbatim>\<open>sortedEntries\<close>, \<^verbatim>\<open>exportToExcel\<close>, the Summary tab):
  \<^verbatim>\<open>items[0]?.level || ruleConfigurations[ruleId] || 'none'\<close>.
  The value is a string, or a member of \<^verbatim>\<open>Object.prototype\<close> when \<open>ruleId\<close> names one
  and nothing else applies.
\<close>

datatype severity_value = Sev string | SevInherited

definition first_level :: "Result list \<Rightarrow> string option" where
  "first_level its = (case its of [] \<Rightarrow> None | r # _ \<Rightarrow> level r)"

definition config_or_none :: "string js_obj \<Rightarrow> string \<Rightarrow> severity_value" where
  "config_or_none cfg rid =
     (case obj_get cfg rid of
        Own l \<Rightarrow> if l \<noteq> [] then Sev l else Sev ''none''
      | Inherited \<Rightarrow> SevInherited
      | Absent \<Rightarrow> Sev ''none'')"

definition rule_severity :: "string js_obj \<Rightarrow> string \<Rightarrow> Result list \<Rightarrow> severity_value" where
  "rule_severity cfg rid its =
     (case first_level its of
        None \<Rightarrow> config_or_none cfg rid
      | Some l \<Rightarrow> if l \<noteq> [] then Sev l else config_or_none cfg rid)"

text \<open>
  \<^verbatim>\<open>
  const getSeverityWeight = (severity: string): number => {
    switch (severity.toLowerCase()) {
      case 'error': return 0;  case 'warning': return 1;
      case 'info': return 2;   case 'note': return 3;
      default: return 4;
    }
  };
  \<close>
  A member of \<^verbatim>\<open>Object.prototype\<close> has no \<^verbatim>\<open>toLowerCase\<close>: the call throws.
\<close>

definition getSeverityWeight :: "string \<Rightarrow> nat" where
  "getSeverityWeight severity =
     (let s = toLowerCase severity
      in if s = ''error'' then 0 else if s = ''warning'' then 1
         else if s = ''info'' then 2 else if s = ''note'' then 3 else 4)"

definition severity_weight :: "severity_value \<Rightarrow> js_error + nat" where
  "severity_weight v = (case v of Sev s \<Rightarrow> Inr (getSeverityWeight s) | SevInherited \<Rightarrow> Inl TypeError)"

text \<open>
  \<^verbatim>\<open>
  const sortedEntries = Object.entries(results).sort(([ruleIdA, itemsA], [ruleIdB, itemsB]) => {
    const severityA = itemsA[0]?.level || ruleConfigurations[ruleIdA] || 'none';
    const severityB = itemsB[0]?.level || ruleConfigurations[ruleIdB] || 'none';
    return getSeverityWeight(severityA) - getSeverityWeight(severityB);
  });
  \<close>
  The sort is stable and the comparator is the difference of two weights, so the result
  is the stable sort by weight. The comparator runs only when there are two entries or
  more, and then every entry takes part in a comparison.
\<close>

definition entry_weight :: "string js_obj \<Rightarrow> string \<times> Result list \<Rightarrow> nat" where
  "entry_weight cfg e =
     (case severity_weight (rule_severity cfg (fst e) (snd e)) of Inr w \<Rightarrow> w | Inl _ \<Rightarrow> 4)"

definition sortedEntries ::
  "Result list js_obj \<Rightarrow> Run option \<Rightarrow> js_error + (string \<times> Result list) list" where
  "sortedEntries res rn =
     (let cfg = ruleConfigurations rn; es = object_entries res
      in if 2 \<le> length es \<and> list_ex (\<lambda>e. rule_severity cfg (fst e) (snd e) = SevInherited) es
         then Inl TypeError
         else Inr (sort_key (entry_weight cfg) es))"

text \<open>
  The rows of \<^verbatim>\<open>exportToExcel\<close> before the \<open>TOTAL\<close> row: rule id, category
  (\<^verbatim>\<open>cwe || ''\<close>), tags, count and severity.
\<close>

record SummaryRow =
  row_ruleId :: string
  row_cwe :: string
  row_tags :: "string list"
  row_count :: nat
  row_severity :: severity_value

definition getRuleTags_table :: "Run option \<Rightarrow> string \<Rightarrow> string list" where
  "getRuleTags_table rn rid =
     (case rn of None \<Rightarrow> [] | Some r \<Rightarrow> rule_tags (find_rule (rules r) rid))"

definition summary_row :: "Run option \<Rightarrow> string \<times> Result list \<Rightarrow> SummaryRow" where
  "summary_row rn e =
     (let tgs = getRuleTags_table rn (fst e)
      in \<lparr>row_ruleId = fst e,
          row_cwe = (case getCWEFromTags_table tgs of None \<Rightarrow> [] | Some c \<Rightarrow> c),
          row_tags = tgs,
          row_count = length (snd e),
          row_severity = rule_severity (ruleConfigurations rn) (fst e) (snd e)\<rparr>)"

definition export_rows :: "Result list js_obj \<Rightarrow> Run option \<Rightarrow> js_error + SummaryRow list" where
  "export_rows res rn =
     (case sortedEntries res rn of Inl e \<Rightarrow> Inl e | Inr es \<Rightarrow> Inr (map (summary_row rn) es))"

section \<open>Notions used to state the properties\<close>

text \<open>The category the comparison path resolves for a rule id of a dataset.\<close>

definition category_of :: "Run \<Rightarrow> string \<Rightarrow> string option" where
  "category_of rn rid = getCWEFromTags (getRuleTags rn rid)"

text \<open>The object \<^verbatim>\<open>{ ruleId, items }\<close> pushed for an entry of the Finding Store.\<close>

definition as_group :: "string \<times> Result list \<Rightarrow> RuleGroup" where
  "as_group e = \<lparr>grp_ruleId = fst e, items = snd e\<rparr>"

text \<open>The total number of findings held by the groups of a Finding Store.\<close>

definition group_sizes :: "Result list js_obj \<Rightarrow> nat" where
  "group_sizes st = sum_list (map (\<lambda>e. length (snd e)) st)"

text \<open>
  The pattern \<^verbatim>\<open>CWE[-:](\d+)\<close> read by position: it matches at offset \<open>n\<close> of \<open>s\<close>
  when the letters \<open>CWE\<close> stand at \<open>n\<close>, a \<open>-\<close> or \<open>:\<close> at \<open>n + 3\<close> and a decimal
  digit at \<open>n + 4\<close>; the capture is the longest run of digits from \<open>n + 4\<close>.
\<close>

definition pattern_matches_at :: "string \<Rightarrow> nat \<Rightarrow> bool" where
  "pattern_matches_at s n =
     (n + 4 < length s \<and> s ! n = CHR ''C'' \<and> s ! (n + 1) = CHR ''W'' \<and> s ! (n + 2) = CHR ''E''
      \<and> (s ! (n + 3) = CHR ''-'' \<or> s ! (n + 3) = CHR '':'') \<and> isDigit (s ! (n + 4)))"

definition pattern_capture_at :: "string \<Rightarrow> nat \<Rightarrow> string" where
  "pattern_capture_at s n = takeWhile isDigit (drop (n + 4) s)"

text \<open>A dataset with the group of one rule id removed from its Finding Store.\<close>

definition without_rule :: "string \<Rightarrow> Sarif \<Rightarrow> Sarif" where
  "without_rule rid sarif = sarif\<lparr>results := filter (\<lambda>e. fst e \<noteq> rid) (results sarif)\<rparr>"

text \<open>
  The default level recorded for a rule id: that of the last rule of the list with this
  id, among the rules with a non-empty id other than \<open>__proto__\<close> and a non-empty
  default level.
\<close>

definition recorded :: "string \<Rightarrow> Rule \<Rightarrow> bool" where
  "recorded rid q =
     (rule_id q = rid \<and> rid \<noteq> [] \<and> rid \<noteq> ''__proto__''
      \<and> (case rule_default_level q of None \<Rightarrow> False | Some l \<Rightarrow> l \<noteq> []))"

definition default_level_of :: "Run option \<Rightarrow> string \<Rightarrow> string option" where
  "default_level_of rn rid =
     (case rn of
        None \<Rightarrow> None
      | Some r \<Rightarrow>
          (case rules r of
             None \<Rightarrow> None
           | Some rs \<Rightarrow>
               (case find (recorded rid) (rev rs) of
                  None \<Rightarrow> None
                | Some q \<Rightarrow> rule_default_level q)))"

section \<open>Example datasets\<close>

text \<open>
  The end-to-end example of the specification: the first dataset has two findings of rule
  \<open>R1\<close> (category \<open>CWE-79\<close>), the second has three findings of rule \<open>R2\<close> (category
  \<open>CWE-79\<close>) and one of the uncategorised rule \<open>R9\<close>, the third has none.
\<close>

definition mk_result :: "string \<Rightarrow> string option \<Rightarrow> Result" where
  "mk_result rid lv = \<lparr>ruleId = rid, message = ''finding'', locations = None, level = lv\<rparr>"

definition mk_rule :: "string \<Rightarrow> string option \<Rightarrow> string list \<Rightarrow> Rule" where
  "mk_rule rid lv tgs =
     \<lparr>rule_id = rid, rule_name = None, shortDescription = None,
      defaultConfiguration = Some \<lparr>cfg_level = lv\<rparr>, properties = Some \<lparr>tags = Some tgs\<rparr>\<rparr>"

definition example_run1 :: Run where
  "example_run1 =
     \<lparr>driver_name = ''ToolA'',
      rules = Some [mk_rule ''R1'' (Some ''warning'') [''security'', ''CWE-79'']],
      run_results = [mk_result ''R1'' None, mk_result ''R1'' (Some ''error'')]\<rparr>"

definition example_run2 :: Run where
  "example_run2 =
     \<lparr>driver_name = ''ToolB'',
      rules = Some [mk_rule ''R2'' None [''CWE:79''], mk_rule ''R9'' None [''style'']],
      run_results = [mk_result ''R2'' None, mk_result ''R9'' None, mk_result ''R2'' None,
                     mk_result ''R2'' None]\<rparr>"

definition example_run3 :: Run where
  "example_run3 = \<lparr>driver_name = ''ToolC'', rules = None, run_results = []\<rparr>"

definition example_store1 :: "Result list js_obj" where
  "example_store1 = [(''R1'', [mk_result ''R1'' None, mk_result ''R1'' (Some ''error'')])]"

definition example_store2 :: "Result list js_obj" where
  "example_store2 =
     [(''R2'', [mk_result ''R2'' None, mk_result ''R2'' None, mk_result ''R2'' None]),
      (''R9'', [mk_result ''R9'' None])]"

definition example_sarifs :: "Sarif list" where
  "example_sarifs =
     [\<lparr>results = example_store1, run = example_run1\<rparr>,
      \<lparr>results = example_store2, run = example_run2\<rparr>,
      \<lparr>results = [], run = example_run3\<rparr>]"

definition example_row :: ComparisonRow where
  "example_row =
     \<lparr>cwe = ''CWE-79'', findings = [2, 3, 0], deltas = [1, - 3], overlaps = [200 / 3, 0]\<rparr>"

text \<open>
  Two uploaded datasets none of whose rules has a category: a run with one finding of the
  uncategorised rule \<open>R9\<close>, and the empty run.
\<close>

definition example_run_untagged :: Run where
  "example_run_untagged =
     \<lparr>driver_name = ''ToolF'', rules = Some [mk_rule ''R9'' None [''style'']],
      run_results = [mk_result ''R9'' None]\<rparr>"

definition example_zero_rows :: "Sarif list" where
  "example_zero_rows =
     [\<lparr>results = [(''R9'', [mk_result ''R9'' None])], run = example_run_untagged\<rparr>,
      \<lparr>results = [], run = example_run3\<rparr>]"

text \<open>
  A run whose rule \<open>R7\<close> has no \<^verbatim>\<open>properties\<close> and whose rule \<open>R8\<close> has
  \<^verbatim>\<open>properties\<close> without \<^verbatim>\<open>tags\<close>.
\<close>

definition example_rule_bare :: Rule where
  "example_rule_bare =
     \<lparr>rule_id = ''R7'', rule_name = None, shortDescription = None,
      defaultConfiguration = None, properties = None\<rparr>"

definition example_rule_untagged :: Rule where
  "example_rule_untagged =
     \<lparr>rule_id = ''R8'', rule_name = None, shortDescription = None,
      defaultConfiguration = None, properties = Some \<lparr>tags = None\<rparr>\<rparr>"

definition example_run_bare :: Run where
  "example_run_bare =
     \<lparr>driver_name = ''ToolG'', rules = Some [example_rule_bare, example_rule_untagged],
      run_results = [mk_result ''R7'' None, mk_result ''R8'' None]\<rparr>"

text \<open>
  A run whose only rule has the empty id and the default level \<open>error\<close>, with one finding
  of the empty rule id that has no level of its own.
\<close>

definition example_run_empty_id :: Run where
  "example_run_empty_id =
     \<lparr>driver_name = ''ToolH'', rules = Some [mk_rule [] (Some ''error'') []],
      run_results = [mk_result [] None]\<rparr>"

text \<open>
  A run whose rules carry the tag \<open>CWE-\<close> (prefix without digits) and the tag
  \<open>CWE-79: XSS\<close> (digits followed by text).
\<close>

definition example_run_tags :: Run where
  "example_run_tags =
     \<lparr>driver_name = ''ToolE'',
      rules = Some [mk_rule ''R5'' None [''CWE-''], mk_rule ''R6'' None [''CWE-79: XSS'']],
      run_results = [mk_result ''R5'' None, mk_result ''R6'' None]\<rparr>"

text \<open>A run with a finding whose rule id is the name of a member of \<^verbatim>\<open>Object.prototype\<close>.\<close>

definition example_run_inherited :: Run where
  "example_run_inherited =
     \<lparr>driver_name = ''ToolD'', rules = None,
      run_results = [mk_result ''R1'' None, mk_result ''constructor'' None]\<rparr>"

section \<open>Properties of the per-row metrics\<close>

lemma length_calc_deltas: "length (calc_deltas fs) = length fs - 1"
  by (simp add: calc_deltas_def)

lemma length_calc_overlaps: "length (calc_overlaps fs) = length fs - 1"
  by (simp add: calc_overlaps_def)

lemma calc_deltas_nth:
  assumes "i + 1 < length fs"
  shows "calc_deltas fs ! i = int (fs ! (i + 1)) - int (fs ! i)"
  using assms by (simp add: calc_deltas_def nth_enumerate_eq)

lemma calc_overlaps_nth:
  assumes "i + 1 < length fs"
  shows "calc_overlaps fs ! i = overlap_pct (fs ! 0) (fs ! (i + 1))"
  using assms by (simp add: calc_overlaps_def)

lemma overlap_pct_formula:
  "overlap_pct a b = (if a = 0 \<and> b = 0 then 0 else real (min a b) / real (max a b) * 100)"
  by (auto simp: overlap_pct_def Let_def min_def max_def)

lemma overlap_pct_range: "0 \<le> overlap_pct a b \<and> overlap_pct a b \<le> 100"
proof (cases "a = 0 \<and> b = 0")
  case True
  then show ?thesis by (simp add: overlap_pct_formula)
next
  case False
  then have pos: "0 < real (max a b)" by (auto simp: max_def)
  have "real (min a b) \<le> real (max a b)" by simp
  with pos have q1: "real (min a b) / real (max a b) \<le> 1" by (simp add: divide_le_eq)
  have q0: "0 \<le> real (min a b) / real (max a b)" by simp
  have "real (min a b) / real (max a b) * 100 \<le> 1 * 100"
    using q1 by (rule mult_right_mono) simp
  moreover have "0 \<le> real (min a b) / real (max a b) * 100"
    using q0 by (rule mult_nonneg_nonneg) simp
  ultimately show ?thesis using False by (simp add: overlap_pct_formula)
qed

section \<open>The example datasets, evaluated\<close>

lemma example_grouped1: "grouped example_run1 = Inr example_store1"
  by (simp add: grouped_def example_run1_def example_store1_def group_step_def obj_get_def
      object_prototype_keys_def mk_result_def)

lemma example_grouped2: "grouped example_run2 = Inr example_store2"
  by (simp add: grouped_def example_run2_def example_store2_def group_step_def obj_get_def
      object_prototype_keys_def mk_result_def)

lemma example_grouped3: "grouped example_run3 = Inr []"
  by (simp add: grouped_def example_run3_def)

lemma example_summaryData: "summaryData example_sarifs = [example_row]"
  by code_simp

lemma example_length: "length example_sarifs = 3"
  by (simp add: example_sarifs_def)

lemma example_groups3:
  "groupByCWE (results (example_sarifs ! 2)) (run (example_sarifs ! 2)) = []"
  by (simp add: example_sarifs_def groupByCWE_def object_entries_def)

section \<open>Shape of the Comparison Rows\<close>

lemma length_calc_findings: "length (calc_findings groups c) = length groups"
  by (simp add: calc_findings_def)

lemma make_row_sel:
  "cwe (make_row groups c) = c"
  "findings (make_row groups c) = calc_findings groups c"
  "deltas (make_row groups c) = calc_deltas (calc_findings groups c)"
  "overlaps (make_row groups c) = calc_overlaps (calc_findings groups c)"
  by (simp_all add: make_row_def Let_def)

lemma summaryData_rowE:
  assumes "row \<in> set (summaryData sarifs)"
  obtains c where "c \<in> set (allCWEs sarifs)" "row = make_row (cweGroups sarifs) c"
  using assms by (auto simp: summaryData_def)

lemma row_shape:
  assumes "row \<in> set (summaryData sarifs)"
  shows "length (findings row) = length sarifs"
    and "deltas row = calc_deltas (findings row)"
    and "overlaps row = calc_overlaps (findings row)"
proof -
  from assms obtain c where r: "row = make_row (cweGroups sarifs) c"
    by (rule summaryData_rowE)
  show "length (findings row) = length sarifs"
    by (simp add: r make_row_sel length_calc_findings cweGroups_def)
  show "deltas row = calc_deltas (findings row)" by (simp add: r make_row_sel)
  show "overlaps row = calc_overlaps (findings row)" by (simp add: r make_row_sel)
qed

section \<open>Deltas (C7)\<close>

text \<open>
  C7. In every Comparison Row, for every pair of consecutive datasets \<open>(i, i+1)\<close>, the
  delta at index \<open>i\<close> is the count of dataset \<open>i+1\<close> minus the count of dataset \<open>i\<close>;
  there is one delta per consecutive pair. Counts \<open>(5, 8)\<close> give \<open>+3\<close> and counts
  \<open>(8, 5)\<close> give \<open>-3\<close>.
\<close>

theorem deltas_consecutive_difference:
  assumes "row \<in> set (summaryData sarifs)" and "i + 1 < length sarifs"
  shows "length (deltas row) = length sarifs - 1
       \<and> deltas row ! i = int (findings row ! (i + 1)) - int (findings row ! i)
       \<and> calc_deltas [5, 8] = [3] \<and> calc_deltas [8, 5] = [- 3]"
proof -
  have len: "length (findings row) = length sarifs" using assms(1) by (rule row_shape(1))
  have d: "deltas row = calc_deltas (findings row)" using assms(1) by (rule row_shape(2))
  have "length (deltas row) = length sarifs - 1" by (simp add: d length_calc_deltas len)
  moreover have "deltas row ! i = int (findings row ! (i + 1)) - int (findings row ! i)"
    using assms(2) by (simp add: d len calc_deltas_nth)
  moreover have "calc_deltas [5, 8] = [3]" by (simp add: calc_deltas_def)
  moreover have "calc_deltas [8, 5] = [- 3]" by (simp add: calc_deltas_def)
  ultimately show ?thesis by simp
qed

theorem deltas_consecutive_difference_witness:
  "example_row \<in> set (summaryData example_sarifs) \<and> 1 + 1 < length example_sarifs
   \<and> findings example_row = [2, 3, 0] \<and> length (deltas example_row) = 2
   \<and> deltas example_row ! 1 = - 3"
  using deltas_consecutive_difference [of example_row example_sarifs 1]
  by (simp add: example_summaryData example_length example_row_def)

section \<open>Overlap percentages (C3)\<close>

text \<open>
  C3. In every Comparison Row, with \<open>a\<close> the count of the first dataset and \<open>b\<close> the
  count of dataset \<open>i+1\<close>: the overlap at index \<open>i\<close> is \<open>0\<close> when \<open>a = 0\<close> and
  \<open>b = 0\<close>, and \<open>min a b / max a b * 100\<close> otherwise; it lies between \<open>0\<close> and \<open>100\<close>.
  The function is total (no input fails): counts \<open>(4, 2)\<close> give \<open>50\<close>, \<open>(3, 3)\<close> give
  \<open>100\<close> and \<open>(0, 5)\<close> give \<open>0\<close>.
\<close>

theorem overlap_percentage:
  assumes "row \<in> set (summaryData sarifs)" and "i + 1 < length sarifs"
  shows "overlaps row ! i =
           (if findings row ! 0 = 0 \<and> findings row ! (i + 1) = 0 then 0
            else real (min (findings row ! 0) (findings row ! (i + 1)))
                 / real (max (findings row ! 0) (findings row ! (i + 1))) * 100)
       \<and> 0 \<le> overlaps row ! i \<and> overlaps row ! i \<le> 100
       \<and> overlap_pct 4 2 = 50 \<and> overlap_pct 3 3 = 100 \<and> overlap_pct 0 5 = 0"
proof -
  have len: "length (findings row) = length sarifs" using assms(1) by (rule row_shape(1))
  have o: "overlaps row = calc_overlaps (findings row)" using assms(1) by (rule row_shape(3))
  have nth: "overlaps row ! i = overlap_pct (findings row ! 0) (findings row ! (i + 1))"
    using assms(2) by (simp add: o len calc_overlaps_nth)
  have "overlap_pct 4 2 = 50" "overlap_pct 3 3 = 100" "overlap_pct 0 5 = 0"
    by (simp_all add: overlap_pct_def)
  then show ?thesis
    using overlap_pct_range [of "findings row ! 0" "findings row ! (i + 1)"]
    by (simp add: nth overlap_pct_formula)
qed

theorem overlap_percentage_witness:
  "example_row \<in> set (summaryData example_sarifs) \<and> 0 + 1 < length example_sarifs
   \<and> findings example_row ! 0 = 2 \<and> findings example_row ! 1 = 3
   \<and> overlaps example_row ! 0 = 2 / 3 * 100"
  using overlap_percentage [of example_row example_sarifs 0]
  by (simp add: example_summaryData example_length example_row_def)

section \<open>Sets, objects and the Category Aggregator\<close>

lemma new_Set_step_set:
  "set (foldl (\<lambda>acc x. if x \<in> set acc then acc else acc @ [x]) acc xs) = set acc \<union> set xs"
  by (induction xs arbitrary: acc) auto

lemma new_Set_step_distinct:
  "distinct acc \<Longrightarrow> distinct (foldl (\<lambda>acc x. if x \<in> set acc then acc else acc @ [x]) acc xs)"
  by (induction xs arbitrary: acc) auto

lemma set_new_Set: "set (new_Set xs) = set xs"
  by (simp add: new_Set_def new_Set_step_set)

lemma distinct_new_Set: "distinct (new_Set xs)"
  by (simp add: new_Set_def new_Set_step_distinct)

lemma set_object_entries: "set (object_entries obj) = set obj"
  by (auto simp: object_entries_def)

lemma set_object_keys: "set (object_keys obj) = fst ` set obj"
  by (simp add: object_keys_def set_object_entries)

lemma filter_object_entries:
  "filter P (object_entries obj) = object_entries (filter P obj)"
  by (simp add: object_entries_def filter_sort conj_commute)

lemma getCWEFromTags_nonempty: "getCWEFromTags tgs = Some c \<Longrightarrow> c \<noteq> []"
  by (auto simp: getCWEFromTags_def split: option.splits if_splits)

lemma map_of_push_group:
  "map_of (push_group al c g) c' =
     (if c' = c then Some ((case map_of al c of None \<Rightarrow> [] | Some gs \<Rightarrow> gs) @ [g])
      else map_of al c')"
  by (simp add: push_group_def update_conv')

lemma map_of_group_entry:
  "map_of (group_entry rn al e) c =
     (if category_of rn (fst e) = Some c
      then Some ((case map_of al c of None \<Rightarrow> [] | Some gs \<Rightarrow> gs) @ [as_group e])
      else map_of al c)"
  by (auto simp: group_entry_def category_of_def as_group_def map_of_push_group
      dest: getCWEFromTags_nonempty split: option.splits)

lemma map_of_foldl_group_entry:
  "map_of (foldl (group_entry rn) al es) c =
     (let new = map as_group (filter (\<lambda>e. category_of rn (fst e) = Some c) es)
      in if new = [] then map_of al c
         else Some ((case map_of al c of None \<Rightarrow> [] | Some gs \<Rightarrow> gs) @ new))"
proof (induction es arbitrary: al)
  case Nil
  then show ?case by simp
next
  case (Cons e es)
  show ?case
    by (simp add: Cons.IH map_of_group_entry Let_def)
qed

lemma map_of_groupByCWE:
  "map_of (groupByCWE res rn) c =
     (let new = map as_group (filter (\<lambda>e. category_of rn (fst e) = Some c) (object_entries res))
      in if new = [] then None else Some new)"
  by (simp add: groupByCWE_def map_of_foldl_group_entry Let_def)

lemma keys_groupByCWE:
  "fst ` set (groupByCWE res rn) = {c. \<exists>e \<in> set res. category_of rn (fst e) = Some c}"
proof -
  have "c \<in> fst ` set (groupByCWE res rn) \<longleftrightarrow> (\<exists>e \<in> set res. category_of rn (fst e) = Some c)" for c
  proof -
    have "c \<in> fst ` set (groupByCWE res rn) \<longleftrightarrow> map_of (groupByCWE res rn) c \<noteq> None"
      by (simp add: map_of_eq_None_iff)
    also have "\<dots> \<longleftrightarrow> filter (\<lambda>e. category_of rn (fst e) = Some c) (object_entries res) \<noteq> []"
      by (simp add: map_of_groupByCWE Let_def)
    also have "\<dots> \<longleftrightarrow> (\<exists>e \<in> set res. category_of rn (fst e) = Some c)"
      by (simp add: filter_empty_conv set_object_entries)
    finally show ?thesis .
  qed
  then show ?thesis by blast
qed

lemma distinct_push_group: "distinct (map fst al) \<Longrightarrow> distinct (map fst (push_group al c g))"
  by (simp add: push_group_def distinct_update)

lemma distinct_group_entry: "distinct (map fst al) \<Longrightarrow> distinct (map fst (group_entry rn al e))"
  by (simp add: group_entry_def distinct_push_group split: option.splits)

lemma distinct_foldl_group_entry:
  "distinct (map fst al) \<Longrightarrow> distinct (map fst (foldl (group_entry rn) al es))"
  by (induction es arbitrary: al) (simp_all add: distinct_group_entry)

lemma distinct_groupByCWE: "distinct (map fst (groupByCWE res rn))"
  by (simp add: groupByCWE_def distinct_foldl_group_entry)

lemma foldl_count: "foldl (\<lambda>sum g. sum + length (items g)) a gs = a + sum_list (map (\<lambda>g. length (items g)) gs)"
  by (induction gs arbitrary: a) simp_all

lemma count_group_sum:
  "count_group grp c =
     (case map_of grp c of None \<Rightarrow> 0 | Some gs \<Rightarrow> sum_list (map (\<lambda>g. length (items g)) gs))"
  by (simp add: count_group_def foldl_count split: option.splits)

lemma count_group_absent: "c \<notin> fst ` set grp \<Longrightarrow> count_group grp c = 0"
  by (simp add: count_group_def map_of_eq_None_iff [symmetric])

lemma set_allCWEs:
  "set (allCWEs sarifs) = (\<Union>s \<in> set sarifs. fst ` set (groupByCWE (results s) (run s)))"
  by (simp add: allCWEs_def set_new_Set cweGroups_def set_object_keys)

lemma sorted_allCWEs: "sorted (allCWEs sarifs)"
  by (simp add: allCWEs_def)

lemma distinct_allCWEs: "distinct (allCWEs sarifs)"
  by (simp add: allCWEs_def distinct_new_Set)

lemma map_cwe_summaryData: "map cwe (summaryData sarifs) = allCWEs sarifs"
  by (simp add: summaryData_def make_row_sel comp_def)

lemma findings_nth:
  assumes "row \<in> set (summaryData sarifs)" and "j < length sarifs"
  shows "findings row ! j = count_group (groupByCWE (results (sarifs ! j)) (run (sarifs ! j))) (cwe row)"
proof -
  from assms(1) obtain c where r: "row = make_row (cweGroups sarifs) c"
    by (rule summaryData_rowE)
  show ?thesis using assms(2)
    by (simp add: r make_row_sel calc_findings_def cweGroups_def)
qed

lemma findings_row:
  assumes "row \<in> set (summaryData sarifs)"
  shows "length (findings row) = length sarifs
        \<and> (\<forall>j < length sarifs.
              findings row ! j
                = (case map_of (groupByCWE (results (sarifs ! j)) (run (sarifs ! j))) (cwe row) of
                     None \<Rightarrow> 0
                   | Some gs \<Rightarrow> sum_list (map (\<lambda>g. length (items g)) gs))
            \<and> (cwe row \<notin> fst ` set (groupByCWE (results (sarifs ! j)) (run (sarifs ! j)))
                 \<longrightarrow> findings row ! j = 0))"
proof (intro conjI allI impI)
  show "length (findings row) = length sarifs" using assms by (rule row_shape(1))
next
  fix j assume "j < length sarifs"
  then show "findings row ! j
                = (case map_of (groupByCWE (results (sarifs ! j)) (run (sarifs ! j))) (cwe row) of
                     None \<Rightarrow> 0
                   | Some gs \<Rightarrow> sum_list (map (\<lambda>g. length (items g)) gs))"
    using assms by (simp only: findings_nth count_group_sum)
next
  fix j assume "j < length sarifs"
    and "cwe row \<notin> fst ` set (groupByCWE (results (sarifs ! j)) (run (sarifs ! j)))"
  then show "findings row ! j = 0"
    using assms by (simp add: findings_nth count_group_absent)
qed

section \<open>Comparison Rows: one per category, sorted (C4)\<close>

text \<open>
  C4. For any list of datasets, the Comparison Rows are, in this order, the categories of
  \<open>allCWEs\<close>: the union of the category keys of all datasets' Category Aggregator
  outputs, sorted lexicographically and without duplicates. Each row has one count per
  dataset: the total size of the groups the dataset has under the category, and \<open>0\<close>
  when the dataset has no entry for it.
\<close>

theorem rows_union_sorted:
  "map cwe (summaryData sarifs) = allCWEs sarifs
   \<and> sorted (allCWEs sarifs) \<and> distinct (allCWEs sarifs)
   \<and> set (allCWEs sarifs) = (\<Union>s \<in> set sarifs. fst ` set (groupByCWE (results s) (run s)))
   \<and> (\<forall>row \<in> set (summaryData sarifs). length (findings row) = length sarifs
        \<and> (\<forall>j < length sarifs.
              findings row ! j
                = (case map_of (groupByCWE (results (sarifs ! j)) (run (sarifs ! j))) (cwe row) of
                     None \<Rightarrow> 0
                   | Some gs \<Rightarrow> sum_list (map (\<lambda>g. length (items g)) gs))
            \<and> (cwe row \<notin> fst ` set (groupByCWE (results (sarifs ! j)) (run (sarifs ! j)))
                 \<longrightarrow> findings row ! j = 0)))"
proof (intro conjI ballI)
  show "map cwe (summaryData sarifs) = allCWEs sarifs" by (rule map_cwe_summaryData)
  show "sorted (allCWEs sarifs)" by (rule sorted_allCWEs)
  show "distinct (allCWEs sarifs)" by (rule distinct_allCWEs)
  show "set (allCWEs sarifs) = (\<Union>s \<in> set sarifs. fst ` set (groupByCWE (results s) (run s)))"
    by (rule set_allCWEs)
next
  fix row assume "row \<in> set (summaryData sarifs)"
  then show "length (findings row) = length sarifs" by (rule row_shape(1))
next
  fix row assume "row \<in> set (summaryData sarifs)"
  then show "\<forall>j < length sarifs.
              findings row ! j
                = (case map_of (groupByCWE (results (sarifs ! j)) (run (sarifs ! j))) (cwe row) of
                     None \<Rightarrow> 0
                   | Some gs \<Rightarrow> sum_list (map (\<lambda>g. length (items g)) gs))
            \<and> (cwe row \<notin> fst ` set (groupByCWE (results (sarifs ! j)) (run (sarifs ! j)))
                 \<longrightarrow> findings row ! j = 0)"
    using findings_row by blast
qed

theorem rows_union_sorted_witness:
  "example_row \<in> set (summaryData example_sarifs) \<and> 2 < length example_sarifs
   \<and> cwe example_row
       \<notin> fst ` set (groupByCWE (results (example_sarifs ! 2)) (run (example_sarifs ! 2)))
   \<and> findings example_row ! 2 = 0
   \<and> map cwe (summaryData example_sarifs) = [''CWE-79'']"
  using rows_union_sorted [of example_sarifs]
  by (simp add: example_summaryData example_length example_row_def example_groups3)

section \<open>Average overlap (C1)\<close>

lemma num_add_Some: "num_add (Some x) (Some y) = Some (x + y)"
  by (simp add: num_add_def)

lemma foldl_num_add:
  assumes "\<forall>r \<in> set rows. i < length (overlaps r)"
  shows "foldl (\<lambda>acc data. num_add acc (num_at (overlaps data) i)) (Some a) rows
         = Some (a + sum_list (map (\<lambda>r. overlaps r ! i) rows))"
  using assms
proof (induction rows arbitrary: a)
  case Nil
  then show ?case by simp
next
  case (Cons r rows)
  then show ?case by (simp add: num_at_def num_add_Some add.assoc)
qed

lemma average_at_mean:
  assumes "rows \<noteq> []" and "\<forall>r \<in> set rows. i < length (overlaps r)"
  shows "average_at rows i = Some (sum_list (map (\<lambda>r. overlaps r ! i) rows) / real (length rows))"
  using assms by (simp add: average_at_def foldl_num_add Let_def)

lemma length_overlaps_row:
  assumes "row \<in> set (summaryData sarifs)"
  shows "length (overlaps row) = length sarifs - 1"
  using assms by (simp add: row_shape length_calc_overlaps)

lemma averageOverlaps_nonempty:
  assumes "summaryData sarifs \<noteq> []"
  shows "length (averageOverlaps sarifs) = length sarifs - 1"
    and "i < length sarifs - 1 \<Longrightarrow>
         averageOverlaps sarifs ! i
           = Some (sum_list (map (\<lambda>row. overlaps row ! i) (summaryData sarifs))
                   / real (length (summaryData sarifs)))"
proof -
  from assms obtain d0 ds where sd: "summaryData sarifs = d0 # ds"
    by (cases "summaryData sarifs") auto
  have d0: "length (overlaps d0) = length sarifs - 1"
    by (rule length_overlaps_row) (simp add: sd)
  have avg: "averageOverlaps sarifs = map (average_at (summaryData sarifs)) [0..<length sarifs - 1]"
    by (simp add: averageOverlaps_def averageOverlaps_of_def sd d0)
  show "length (averageOverlaps sarifs) = length sarifs - 1" by (simp add: avg)
  assume i: "i < length sarifs - 1"
  have "\<forall>r \<in> set (summaryData sarifs). i < length (overlaps r)"
    using i by (simp add: length_overlaps_row)
  with assms have "average_at (summaryData sarifs) i
           = Some (sum_list (map (\<lambda>row. overlaps row ! i) (summaryData sarifs))
                   / real (length (summaryData sarifs)))"
    by (rule average_at_mean)
  then show "averageOverlaps sarifs ! i
           = Some (sum_list (map (\<lambda>row. overlaps row ! i) (summaryData sarifs))
                   / real (length (summaryData sarifs)))"
    using i by (simp add: avg)
qed

text \<open>
  With at least one Comparison Row there is one average per pairing, the arithmetic mean
  of the rows' overlaps at that index (lemma \<open>averageOverlaps_nonempty\<close>), and there is
  always one overlap column per pairing.
\<close>

lemma length_overlapHeaders: "length (overlapHeaders sarifs) = length sarifs - 1"
  by (simp add: overlapHeaders_def toolNames_def)

lemma example_zero_rows_built:
  "handleFileUpload [None, None, None] \<lparr>version = ''2.1.0'', runs = [example_run_untagged]\<rparr> 0
     = Inr [Some (example_zero_rows ! 0), None, None]
   \<and> handleFileUpload [Some (example_zero_rows ! 0), None, None]
        \<lparr>version = ''2.1.0'', runs = [example_run3]\<rparr> 1
     = Inr [Some (example_zero_rows ! 0), Some (example_zero_rows ! 1), None]"
  by (simp add: handleFileUpload_def grouped_def example_run_untagged_def example_run3_def
      example_zero_rows_def group_step_def obj_get_def object_prototype_keys_def mk_result_def
      set_slot_def)

text \<open>
  C1 does not hold on the code when there are no Comparison Rows. For two uploaded
  datasets without any categorised rule there are zero rows and one pairing, with its
  overlap column; the callback that computes an average returns \<open>0\<close> for zero rows, but
  it is never called, since the indices come from the first row: the list of averages is
  empty and holds no \<open>0\<close> for the pairing.
\<close>

theorem average_overlaps_zero_rows:
  "grouped example_run_untagged = Inr (results (example_zero_rows ! 0))
   \<and> grouped example_run3 = Inr (results (example_zero_rows ! 1))
   \<and> summaryData example_zero_rows = []
   \<and> overlapHeaders example_zero_rows = [''Overlap ToolF - ToolC %'']
   \<and> average_at (summaryData example_zero_rows) 0 = Some 0
   \<and> averageOverlaps example_zero_rows = []"
  by code_simp

section \<open>The pattern matcher finds the leftmost match\<close>

lemma takeWhile_nonempty_iff: "takeWhile P xs \<noteq> [] \<longleftrightarrow> xs \<noteq> [] \<and> P (hd xs)"
  by (cases xs) auto

lemma match_here_Some_iff:
  "match_here s = Some ds \<longleftrightarrow> pattern_matches_at s 0 \<and> ds = pattern_capture_at s 0"
proof (cases s)
  case Nil
  then show ?thesis by (simp add: match_here_def pattern_matches_at_def)
next
  case s1: (Cons c1 s1)
  show ?thesis
  proof (cases s1)
    case Nil
    then show ?thesis by (simp add: s1 match_here_def pattern_matches_at_def)
  next
    case s2: (Cons c2 s2)
    show ?thesis
    proof (cases s2)
      case Nil
      then show ?thesis by (simp add: s1 s2 match_here_def pattern_matches_at_def)
    next
      case s3: (Cons c3 s3)
      show ?thesis
      proof (cases s3)
        case Nil
        then show ?thesis by (simp add: s1 s2 s3 match_here_def pattern_matches_at_def)
      next
        case s4: (Cons sep rest)
        show ?thesis
          by (cases rest)
            (auto simp: s1 s2 s3 s4 match_here_def pattern_matches_at_def pattern_capture_at_def)
      qed
    qed
  qed
qed

lemma match_here_None_iff: "match_here s = None \<longleftrightarrow> \<not> pattern_matches_at s 0"
  using match_here_Some_iff [of s] by (cases "match_here s") auto

lemma pattern_matches_at_Cons: "pattern_matches_at (c # cs) (Suc n) = pattern_matches_at cs n"
  unfolding pattern_matches_at_def by (simp only: add_Suc nth_Cons_Suc length_Cons Suc_less_eq)

lemma pattern_capture_at_Cons: "pattern_capture_at (c # cs) (Suc n) = pattern_capture_at cs n"
  unfolding pattern_capture_at_def by (simp only: add_Suc drop_Suc_Cons)

lemma pattern_matches_at_Nil: "\<not> pattern_matches_at [] n"
  by (simp add: pattern_matches_at_def)

lemma regex_match_leftmost:
  assumes "pattern_matches_at s n" and "\<forall>m < n. \<not> pattern_matches_at s m"
  shows "regex_match s = Some (pattern_capture_at s n)"
  using assms
proof (induction s arbitrary: n)
  case Nil
  then show ?case by (simp add: pattern_matches_at_Nil)
next
  case (Cons c cs)
  show ?case
  proof (cases n)
    case 0
    with Cons.prems(1) have "match_here (c # cs) = Some (pattern_capture_at (c # cs) 0)"
      by (simp add: match_here_Some_iff)
    with 0 show ?thesis by simp
  next
    case (Suc k)
    with Cons.prems(2) have no0: "match_here (c # cs) = None"
      by (simp add: match_here_None_iff)
    have "pattern_matches_at cs k"
      using Cons.prems(1) by (simp add: Suc pattern_matches_at_Cons)
    moreover have "\<forall>m < k. \<not> pattern_matches_at cs m"
    proof (intro allI impI)
      fix m assume "m < k"
      then have "Suc m < n" by (simp add: Suc)
      with Cons.prems(2) have "\<not> pattern_matches_at (c # cs) (Suc m)" by blast
      then show "\<not> pattern_matches_at cs m" by (simp add: pattern_matches_at_Cons)
    qed
    ultimately have "regex_match cs = Some (pattern_capture_at cs k)" by (rule Cons.IH)
    then show ?thesis by (simp add: no0 Suc pattern_capture_at_Cons)
  qed
qed

lemma regex_match_no_match:
  assumes "\<forall>n. \<not> pattern_matches_at s n"
  shows "regex_match s = None"
  using assms
proof (induction s)
  case Nil
  then show ?case by simp
next
  case (Cons c cs)
  have "match_here (c # cs) = None" using Cons.prems by (simp add: match_here_None_iff)
  moreover have "\<forall>n. \<not> pattern_matches_at cs n"
  proof
    fix n
    from Cons.prems have "\<not> pattern_matches_at (c # cs) (Suc n)" by blast
    then show "\<not> pattern_matches_at cs n" by (simp add: pattern_matches_at_Cons)
  qed
  ultimately show ?case using Cons.IH by simp
qed

lemma pattern_capture_digits:
  assumes "pattern_matches_at s n"
  shows "pattern_capture_at s n \<noteq> [] \<and> list_all isDigit (pattern_capture_at s n)"
proof -
  from assms have "drop (n + 4) s \<noteq> []" and "isDigit (hd (drop (n + 4) s))"
    by (simp_all add: pattern_matches_at_def hd_drop_conv_nth)
  then have "pattern_capture_at s n \<noteq> []"
    by (simp add: pattern_capture_at_def takeWhile_nonempty_iff)
  moreover have "list_all isDigit (pattern_capture_at s n)"
    by (simp add: pattern_capture_at_def list_all_iff) (meson set_takeWhileD)
  ultimately show ?thesis by simp
qed

section \<open>Category Resolver (C5, C9)\<close>

lemma startsWith_iff: "startsWith s p \<longleftrightarrow> (\<exists>r. s = p @ r)"
  unfolding startsWith_def
  by (metis append_eq_conv_conj append_take_drop_id)

lemma hasCWEPrefix_nonempty: "hasCWEPrefix t \<Longrightarrow> t \<noteq> []"
  by (auto simp: hasCWEPrefix_def startsWith_def)

lemma getCWEFromTags_no_prefix:
  assumes "find hasCWEPrefix tgs = None"
  shows "getCWEFromTags tgs = None"
  using assms by (simp add: getCWEFromTags_def)

lemma getCWEFromTags_first_prefix:
  assumes "find hasCWEPrefix tgs = Some t"
  shows "getCWEFromTags tgs = map_option (\<lambda>ds. ''CWE-'' @ ds) (regex_match t)"
proof -
  from assms have "hasCWEPrefix t" by (auto simp: find_Some_iff)
  then have "t \<noteq> []" by (rule hasCWEPrefix_nonempty)
  with assms show ?thesis by (simp add: getCWEFromTags_def split: option.splits)
qed

lemma find_first:
  assumes "xs = pre @ x # post" and "\<forall>u \<in> set pre. \<not> P u" and "P x"
  shows "find P xs = Some x"
  using assms by (induction pre arbitrary: xs) auto

lemma find_none: "(\<forall>u \<in> set xs. \<not> P u) \<Longrightarrow> find P xs = None"
  by (simp add: find_None_iff)

lemma category_of_no_rule:
  assumes "rules rn = None \<or> (\<exists>rs. rules rn = Some rs \<and> (\<forall>r \<in> set rs. rule_id r \<noteq> rid))"
  shows "category_of rn rid = None"
proof -
  have "find_rule (rules rn) rid = None"
    using assms by (auto simp: find_rule_def find_None_iff)
  then show ?thesis
    by (simp add: category_of_def getRuleTags_def rule_tags_def getCWEFromTags_def)
qed

lemma category_of_rule:
  assumes "rules rn = Some (rs1 @ r # rs2)" and "\<forall>q \<in> set rs1. rule_id q \<noteq> rid"
    and "rule_id r = rid"
  shows "category_of rn rid = getCWEFromTags (rule_tags (Some r))"
proof -
  have "find (\<lambda>q. rule_id q = rid) (rs1 @ r # rs2) = Some r"
    using assms(2,3) by (intro find_first [where pre = rs1 and post = rs2]) auto
  then show ?thesis
    by (simp add: category_of_def getRuleTags_def find_rule_def assms(1))
qed

lemma getCWEFromTags_match:
  assumes "tgs = ts1 @ t # ts2" and "\<forall>u \<in> set ts1. \<not> hasCWEPrefix u" and "hasCWEPrefix t"
    and "pattern_matches_at t n" and "\<forall>m < n. \<not> pattern_matches_at t m"
  shows "getCWEFromTags tgs = Some (''CWE-'' @ pattern_capture_at t n)"
proof -
  have "find hasCWEPrefix tgs = Some t" using assms(1-3) by (rule find_first)
  then have "getCWEFromTags tgs = map_option (\<lambda>ds. ''CWE-'' @ ds) (regex_match t)"
    by (rule getCWEFromTags_first_prefix)
  moreover have "regex_match t = Some (pattern_capture_at t n)"
    using assms(4,5) by (rule regex_match_leftmost)
  ultimately show ?thesis by simp
qed

lemma getCWEFromTags_malformed:
  assumes "tgs = ts1 @ t # ts2" and "\<forall>u \<in> set ts1. \<not> hasCWEPrefix u" and "hasCWEPrefix t"
    and "\<forall>n. \<not> pattern_matches_at t n"
  shows "getCWEFromTags tgs = None"
proof -
  have "find hasCWEPrefix tgs = Some t" using assms(1-3) by (rule find_first)
  then have "getCWEFromTags tgs = map_option (\<lambda>ds. ''CWE-'' @ ds) (regex_match t)"
    by (rule getCWEFromTags_first_prefix)
  moreover have "regex_match t = None" using assms(4) by (rule regex_match_no_match)
  ultimately show ?thesis by simp
qed

lemma rule_tags_default:
  assumes "properties r = None \<or> (\<exists>p. properties r = Some p \<and> tags p = None)"
  shows "rule_tags (Some r) = []"
  using assms by (auto simp: rule_tags_def)

lemma rule_tags_present:
  assumes "properties r = Some p" and "tags p = Some tgs"
  shows "rule_tags (Some r) = tgs"
  using assms by (simp add: rule_tags_def)

text \<open>
  C5. The category the comparison path resolves for a rule id is: none when the dataset
  has no rule list or no rule with that id; otherwise, with \<open>r\<close> the first rule with that
  id: none when \<open>r\<close> has no \<^verbatim>\<open>properties\<close> or no \<^verbatim>\<open>tags\<close> (the tag list is then
  empty); otherwise, with \<open>tgs\<close> its tags: none when no tag begins with \<open>CWE:\<close> or
  \<open>CWE-\<close>; otherwise, with \<open>t\<close> the first such tag in list order: none when the pattern
  \<^verbatim>\<open>CWE[-:](\d+)\<close> matches nowhere in \<open>t\<close>, and \<open>CWE-\<close> followed by the digit run
  captured at the leftmost match otherwise. The captured run is non-empty and all digits.
\<close>

theorem category_resolver:
  "(rules rn = None \<or> (\<exists>rs. rules rn = Some rs \<and> (\<forall>q \<in> set rs. rule_id q \<noteq> rid))
      \<longrightarrow> category_of rn rid = None)
   \<and> (rules rn = Some (rs1 @ r # rs2) \<and> (\<forall>q \<in> set rs1. rule_id q \<noteq> rid) \<and> rule_id r = rid \<longrightarrow>
        (properties r = None \<or> (\<exists>p'. properties r = Some p' \<and> tags p' = None)
           \<longrightarrow> category_of rn rid = None)
      \<and> (properties r = Some p \<and> tags p = Some tgs \<longrightarrow>
            ((\<forall>u \<in> set tgs. \<not> hasCWEPrefix u) \<longrightarrow> category_of rn rid = None)
          \<and> (tgs = ts1 @ t # ts2 \<and> (\<forall>u \<in> set ts1. \<not> hasCWEPrefix u) \<and> hasCWEPrefix t \<longrightarrow>
                ((\<forall>n. \<not> pattern_matches_at t n) \<longrightarrow> category_of rn rid = None)
              \<and> (pattern_matches_at t n \<and> (\<forall>m < n. \<not> pattern_matches_at t m) \<longrightarrow>
                    category_of rn rid = Some (''CWE-'' @ pattern_capture_at t n)
                    \<and> pattern_capture_at t n \<noteq> []
                    \<and> list_all isDigit (pattern_capture_at t n)))))"
proof (intro conjI impI; (elim conjE)?)
  assume "rules rn = None \<or> (\<exists>rs. rules rn = Some rs \<and> (\<forall>q \<in> set rs. rule_id q \<noteq> rid))"
  then show "category_of rn rid = None" by (rule category_of_no_rule)
next
  assume "rules rn = Some (rs1 @ r # rs2)" "\<forall>q \<in> set rs1. rule_id q \<noteq> rid" "rule_id r = rid"
  then have c: "category_of rn rid = getCWEFromTags (rule_tags (Some r))" by (rule category_of_rule)
  assume "properties r = None \<or> (\<exists>p'. properties r = Some p' \<and> tags p' = None)"
  then have "rule_tags (Some r) = []" by (rule rule_tags_default)
  then show "category_of rn rid = None" by (simp add: c getCWEFromTags_def)
next
  assume "rules rn = Some (rs1 @ r # rs2)" "\<forall>q \<in> set rs1. rule_id q \<noteq> rid" "rule_id r = rid"
  then have c: "category_of rn rid = getCWEFromTags (rule_tags (Some r))" by (rule category_of_rule)
  assume "properties r = Some p" "tags p = Some tgs"
  then have t: "rule_tags (Some r) = tgs" by (rule rule_tags_present)
  assume "\<forall>u \<in> set tgs. \<not> hasCWEPrefix u"
  then show "category_of rn rid = None"
    by (simp add: c t getCWEFromTags_no_prefix find_none)
next
  assume "rules rn = Some (rs1 @ r # rs2)" "\<forall>q \<in> set rs1. rule_id q \<noteq> rid" "rule_id r = rid"
  then have c: "category_of rn rid = getCWEFromTags (rule_tags (Some r))" by (rule category_of_rule)
  assume "properties r = Some p" "tags p = Some tgs"
  then have t: "rule_tags (Some r) = tgs" by (rule rule_tags_present)
  assume "tgs = ts1 @ t # ts2" "\<forall>u \<in> set ts1. \<not> hasCWEPrefix u" "hasCWEPrefix t"
    "\<forall>n. \<not> pattern_matches_at t n"
  then show "category_of rn rid = None"
    unfolding c t by (rule getCWEFromTags_malformed)
next
  assume "rules rn = Some (rs1 @ r # rs2)" "\<forall>q \<in> set rs1. rule_id q \<noteq> rid" "rule_id r = rid"
  then have c: "category_of rn rid = getCWEFromTags (rule_tags (Some r))" by (rule category_of_rule)
  assume "properties r = Some p" "tags p = Some tgs"
  then have t: "rule_tags (Some r) = tgs" by (rule rule_tags_present)
  assume "tgs = ts1 @ t # ts2" "\<forall>u \<in> set ts1. \<not> hasCWEPrefix u" "hasCWEPrefix t"
    "pattern_matches_at t n" "\<forall>m < n. \<not> pattern_matches_at t m"
  then show "category_of rn rid = Some (''CWE-'' @ pattern_capture_at t n)"
    unfolding c t by (rule getCWEFromTags_match)
next
  assume "pattern_matches_at t n"
  then show "pattern_capture_at t n \<noteq> []" by (simp add: pattern_capture_digits)
next
  assume "pattern_matches_at t n"
  then show "list_all isDigit (pattern_capture_at t n)" by (simp add: pattern_capture_digits)
qed

theorem category_resolver_witness:
  "rules example_run1 = Some ([] @ mk_rule ''R1'' (Some ''warning'') [''security'', ''CWE-79''] # [])
   \<and> properties (mk_rule ''R1'' (Some ''warning'') [''security'', ''CWE-79''])
       = Some \<lparr>tags = Some [''security'', ''CWE-79'']\<rparr>
   \<and> \<not> hasCWEPrefix ''security'' \<and> hasCWEPrefix ''CWE-79'' \<and> pattern_matches_at ''CWE-79'' 0
   \<and> category_of example_run1 ''R1'' = Some ''CWE-79''
   \<and> rules example_run_bare = Some ([] @ example_rule_bare # [example_rule_untagged])
   \<and> rule_id example_rule_bare = ''R7'' \<and> properties example_rule_bare = None
   \<and> category_of example_run_bare ''R7'' = None
   \<and> rules example_run_bare = Some ([example_rule_bare] @ example_rule_untagged # [])
   \<and> rule_id example_rule_untagged = ''R8''
   \<and> properties example_rule_untagged = Some \<lparr>tags = None\<rparr>
   \<and> category_of example_run_bare ''R8'' = None
   \<and> category_of example_run_bare ''R0'' = None"
proof -
  have a: "category_of example_run1 ''R1'' = Some ''CWE-79''"
    using category_resolver [of example_run1 "''R1''" "[]"
        "mk_rule ''R1'' (Some ''warning'') [''security'', ''CWE-79'']" "[]"
        "\<lparr>tags = Some [''security'', ''CWE-79'']\<rparr>" "[''security'', ''CWE-79'']"
        "[''security'']" "''CWE-79''" "[]" 0]
    by (simp add: example_run1_def mk_rule_def hasCWEPrefix_def startsWith_def
        pattern_matches_at_def pattern_capture_at_def isDigit_def)
  have b: "category_of example_run_bare ''R7'' = None"
    using category_resolver [of example_run_bare "''R7''" "[]" example_rule_bare
        "[example_rule_untagged]"]
    by (simp add: example_run_bare_def example_rule_bare_def)
  have c: "category_of example_run_bare ''R8'' = None"
    using category_resolver [of example_run_bare "''R8''" "[example_rule_bare]"
        example_rule_untagged "[]"]
    by (simp add: example_run_bare_def example_rule_bare_def example_rule_untagged_def)
  have d: "category_of example_run_bare ''R0'' = None"
    using category_resolver [of example_run_bare "''R0''"]
    by (simp add: example_run_bare_def example_rule_bare_def example_rule_untagged_def)
  show ?thesis
    using a b c d
    by (simp add: example_run1_def example_run_bare_def mk_rule_def example_rule_bare_def
        example_rule_untagged_def hasCWEPrefix_def startsWith_def pattern_matches_at_def
        isDigit_def)
qed

text \<open>
  C9. Once the first tag \<open>t\<close> beginning with \<open>CWE:\<close> or \<open>CWE-\<close> is selected, the digits
  come from the leftmost offset \<open>n\<close> at which the pattern matches in \<open>t\<close>, wherever
  that is, not only from offset \<open>0\<close>. The tag \<open>CWE-Insecure see CWE-89\<close> has no match
  at its leading prefix and resolves to \<open>CWE-89\<close> from the match at offset \<open>17\<close>.
\<close>

theorem digits_from_first_occurrence:
  assumes "tgs = ts1 @ t # ts2" and "\<forall>u \<in> set ts1. \<not> hasCWEPrefix u" and "hasCWEPrefix t"
    and "pattern_matches_at t n" and "\<forall>m < n. \<not> pattern_matches_at t m"
  shows "getCWEFromTags tgs = Some (''CWE-'' @ pattern_capture_at t n)"
  using assms by (rule getCWEFromTags_match)

lemma all_less_upt: "(\<forall>m < n. P m) \<longleftrightarrow> list_all P [0..<n]"
  by (auto simp: list_all_iff)

lemma example_tag_first_match:
  "\<forall>m < 17. \<not> pattern_matches_at ''CWE-Insecure see CWE-89'' m"
  unfolding all_less_upt by code_simp

lemma example_tag_match: "pattern_matches_at ''CWE-Insecure see CWE-89'' 17"
  by code_simp

lemma example_tag_capture: "pattern_capture_at ''CWE-Insecure see CWE-89'' 17 = ''89''"
  by code_simp

theorem digits_from_first_occurrence_witness:
  "hasCWEPrefix ''CWE-Insecure see CWE-89''
   \<and> \<not> pattern_matches_at ''CWE-Insecure see CWE-89'' 0
   \<and> pattern_matches_at ''CWE-Insecure see CWE-89'' 17
   \<and> getCWEFromTags [''CWE-Insecure see CWE-89''] = Some ''CWE-89''"
proof -
  have p: "hasCWEPrefix ''CWE-Insecure see CWE-89''"
    by (simp add: hasCWEPrefix_def startsWith_def)
  have "getCWEFromTags [''CWE-Insecure see CWE-89'']
          = Some (''CWE-'' @ pattern_capture_at ''CWE-Insecure see CWE-89'' 17)"
    using p example_tag_match example_tag_first_match
    by (intro digits_from_first_occurrence [where ?ts1.0 = "[]" and ?ts2.0 = "[]"]) simp_all
  then show ?thesis
    using p example_tag_match example_tag_first_match by (simp add: example_tag_capture)
qed

section \<open>Rules without a category (C8)\<close>

lemma group_members:
  assumes "(c, gs) \<in> set (groupByCWE res rn)" and "g \<in> set gs"
  shows "category_of rn (grp_ruleId g) = Some c"
proof -
  have "map_of (groupByCWE res rn) c = Some gs"
    using assms(1) distinct_groupByCWE by (rule map_of_is_SomeI [rotated])
  then have "gs = map as_group (filter (\<lambda>e. category_of rn (fst e) = Some c) (object_entries res))"
    by (simp add: map_of_groupByCWE Let_def split: if_splits)
  with assms(2) show ?thesis by (auto simp: as_group_def)
qed

lemma group_entry_skip:
  assumes "category_of rn (fst e) = None"
  shows "group_entry rn al e = al"
  using assms by (simp add: group_entry_def category_of_def)

lemma foldl_group_entry_filter:
  assumes "category_of rn rid = None"
  shows "foldl (group_entry rn) al (filter (\<lambda>e. fst e \<noteq> rid) es) = foldl (group_entry rn) al es"
proof (induction es arbitrary: al)
  case Nil
  then show ?case by simp
next
  case (Cons e es)
  show ?case
  proof (cases "fst e = rid")
    case True
    with assms have "group_entry rn al e = al" by (simp add: group_entry_skip)
    with True show ?thesis by (simp add: Cons.IH)
  next
    case False
    then show ?thesis by (simp add: Cons.IH)
  qed
qed

lemma groupByCWE_without:
  assumes "category_of rn rid = None"
  shows "groupByCWE (filter (\<lambda>e. fst e \<noteq> rid) res) rn = groupByCWE res rn"
  using assms
  by (simp add: groupByCWE_def filter_object_entries [symmetric] foldl_group_entry_filter)

lemma cweGroups_without:
  assumes "j < length sarifs" and "category_of (run (sarifs ! j)) rid = None"
  shows "cweGroups (sarifs[j := without_rule rid (sarifs ! j)]) = cweGroups sarifs"
proof -
  have "groupByCWE (results (without_rule rid (sarifs ! j))) (run (without_rule rid (sarifs ! j)))
        = groupByCWE (results (sarifs ! j)) (run (sarifs ! j))"
    using assms(2) by (simp add: without_rule_def groupByCWE_without)
  then show ?thesis
    using assms(1) by (simp add: cweGroups_def map_update list_update_same_conv)
qed

lemma summaryData_cong:
  assumes "cweGroups a = cweGroups b"
  shows "summaryData a = summaryData b" and "averageOverlaps a = averageOverlaps b"
  using assms by (simp_all add: summaryData_def allCWEs_def averageOverlaps_def)

text \<open>
  C8. When the category resolved for a rule id in a dataset is none, that rule is in no
  category group of the dataset's Category Aggregator output, and it contributes nothing
  to the comparison: removing the rule's findings from the dataset leaves the aggregated
  groups, every Comparison Row (counts, deltas, overlaps) and the averages unchanged.
\<close>

theorem uncategorised_rule_excluded:
  assumes "j < length sarifs" and "category_of (run (sarifs ! j)) rid = None"
  shows "(\<forall>c gs. (c, gs) \<in> set (cweGroups sarifs ! j) \<longrightarrow> rid \<notin> grp_ruleId ` set gs)
       \<and> cweGroups (sarifs[j := without_rule rid (sarifs ! j)]) = cweGroups sarifs
       \<and> summaryData (sarifs[j := without_rule rid (sarifs ! j)]) = summaryData sarifs
       \<and> averageOverlaps (sarifs[j := without_rule rid (sarifs ! j)]) = averageOverlaps sarifs"
proof (intro conjI allI impI)
  fix c gs
  assume "(c, gs) \<in> set (cweGroups sarifs ! j)"
  then have m: "(c, gs) \<in> set (groupByCWE (results (sarifs ! j)) (run (sarifs ! j)))"
    using assms(1) by (simp add: cweGroups_def)
  show "rid \<notin> grp_ruleId ` set gs"
  proof
    assume "rid \<in> grp_ruleId ` set gs"
    then obtain g where "g \<in> set gs" and "grp_ruleId g = rid" by auto
    with m have "category_of (run (sarifs ! j)) rid = Some c" by (auto dest: group_members)
    with assms(2) show False by simp
  qed
next
  show g: "cweGroups (sarifs[j := without_rule rid (sarifs ! j)]) = cweGroups sarifs"
    using assms by (rule cweGroups_without)
  show "summaryData (sarifs[j := without_rule rid (sarifs ! j)]) = summaryData sarifs"
    using g by (rule summaryData_cong(1))
  show "averageOverlaps (sarifs[j := without_rule rid (sarifs ! j)]) = averageOverlaps sarifs"
    using g by (rule summaryData_cong(2))
qed

lemma example_R9_uncategorised: "category_of (run (example_sarifs ! 1)) ''R9'' = None"
  by code_simp

lemma example_without_R9:
  "results (without_rule ''R9'' (example_sarifs ! 1))
     = [(''R2'', [mk_result ''R2'' None, mk_result ''R2'' None, mk_result ''R2'' None])]"
  by (simp add: without_rule_def example_sarifs_def example_store2_def)

lemma example_R9_member:
  "(''R9'', [mk_result ''R9'' None]) \<in> set (results (example_sarifs ! 1))"
  by (simp add: example_sarifs_def example_store2_def)

theorem uncategorised_rule_excluded_witness:
  "1 < length example_sarifs \<and> category_of (run (example_sarifs ! 1)) ''R9'' = None
   \<and> (''R9'', [mk_result ''R9'' None]) \<in> set (results (example_sarifs ! 1))
   \<and> results (without_rule ''R9'' (example_sarifs ! 1))
       = [(''R2'', [mk_result ''R2'' None, mk_result ''R2'' None, mk_result ''R2'' None])]
   \<and> summaryData (example_sarifs[1 := without_rule ''R9'' (example_sarifs ! 1)]) = [example_row]"
proof -
  have j: "1 < length example_sarifs" by (simp add: example_length)
  have "summaryData (example_sarifs[1 := without_rule ''R9'' (example_sarifs ! 1)])
          = summaryData example_sarifs"
    using uncategorised_rule_excluded [OF j example_R9_uncategorised] by simp
  then show ?thesis
    using j example_R9_uncategorised example_R9_member example_without_R9
    by (simp add: example_summaryData)
qed

section \<open>Finding Store (C6)\<close>

lemma group_step_Inr:
  assumes "group_step acc r = Inr acc'"
  shows "acc' = AList.update (ruleId r)
                  ((case map_of acc (ruleId r) of None \<Rightarrow> [] | Some its \<Rightarrow> its) @ [r]) acc"
  using assms by (auto simp: group_step_def obj_get_def split: option.splits if_splits)

lemma obj_get_Inherited_iff:
  "obj_get obj k = Inherited \<longleftrightarrow> k \<in> set object_prototype_keys \<and> k \<notin> fst ` set obj"
proof (cases "map_of obj k")
  case None
  then have "k \<notin> fst ` set obj" by (simp add: map_of_eq_None_iff)
  with None show ?thesis by (simp add: obj_get_def)
next
  case (Some v)
  then have "k \<in> fst ` set obj" by (metis map_of_eq_None_iff option.distinct(1))
  with Some show ?thesis by (simp add: obj_get_def)
qed

lemma group_step_Inl_iff:
  "group_step acc r = Inl e \<longleftrightarrow>
     ruleId r \<in> set object_prototype_keys \<and> ruleId r \<notin> fst ` set acc"
proof -
  have "group_step acc r = Inl e \<longleftrightarrow> obj_get acc (ruleId r) = Inherited"
    by (cases e) (simp add: group_step_def split: js_prop.splits)
  then show ?thesis by (simp add: obj_get_Inherited_iff)
qed

lemma map_of_group_step:
  assumes "group_step acc r = Inr acc'"
  shows "map_of acc' k =
           (if ruleId r = k then Some ((case map_of acc k of None \<Rightarrow> [] | Some its \<Rightarrow> its) @ [r])
            else map_of acc k)"
  by (auto simp: group_step_Inr [OF assms] update_conv')

lemma map_of_group_reduce:
  assumes "group_reduce acc rs = Inr st"
  shows "map_of st k =
           (let new = filter (\<lambda>r. ruleId r = k) rs
            in if new = [] then map_of acc k
               else Some ((case map_of acc k of None \<Rightarrow> [] | Some its \<Rightarrow> its) @ new))"
  using assms
proof (induction rs arbitrary: acc)
  case Nil
  then show ?case by simp
next
  case (Cons r rs)
  from Cons.prems obtain acc' where step: "group_step acc r = Inr acc'"
    and rest: "group_reduce acc' rs = Inr st"
    by (auto split: sum.splits)
  show ?case
    by (simp add: Cons.IH [OF rest] map_of_group_step [OF step] Let_def)
qed

lemma distinct_group_reduce:
  assumes "group_reduce acc rs = Inr st" and "distinct (map fst acc)"
  shows "distinct (map fst st)"
  using assms
proof (induction rs arbitrary: acc)
  case Nil
  then show ?case by simp
next
  case (Cons r rs)
  from Cons.prems(1) obtain acc' where step: "group_step acc r = Inr acc'"
    and rest: "group_reduce acc' rs = Inr st"
    by (auto split: sum.splits)
  have "distinct (map fst acc')"
    using Cons.prems(2) by (simp add: group_step_Inr [OF step] distinct_update)
  with rest show ?case by (rule Cons.IH)
qed

lemma group_sizes_update:
  "group_sizes (AList.update k ((case map_of al k of None \<Rightarrow> [] | Some its \<Rightarrow> its) @ [r]) al)
     = Suc (group_sizes al)"
  by (induction al) (auto simp: group_sizes_def)

lemma group_sizes_reduce:
  assumes "group_reduce acc rs = Inr st"
  shows "group_sizes st = group_sizes acc + length rs"
  using assms
proof (induction rs arbitrary: acc)
  case Nil
  then show ?case by simp
next
  case (Cons r rs)
  from Cons.prems obtain acc' where step: "group_step acc r = Inr acc'"
    and rest: "group_reduce acc' rs = Inr st"
    by (auto split: sum.splits)
  have "group_sizes acc' = Suc (group_sizes acc)"
    by (simp add: group_step_Inr [OF step] group_sizes_update)
  with Cons.IH [OF rest] show ?case by simp
qed

lemma keys_group_step:
  assumes "group_step acc r = Inr acc'"
  shows "fst ` set acc' = insert (ruleId r) (fst ` set acc)"
  by (simp add: group_step_Inr [OF assms] dom_update [simplified])

lemma group_reduce_fails_iff:
  assumes "fst ` set acc \<inter> set object_prototype_keys = {}"
  shows "group_reduce acc rs = Inl TypeError \<longleftrightarrow> (\<exists>r \<in> set rs. ruleId r \<in> set object_prototype_keys)"
  using assms
proof (induction rs arbitrary: acc)
  case Nil
  then show ?case by simp
next
  case (Cons r rs)
  show ?case
  proof (cases "group_step acc r")
    case (Inl e)
    then have "ruleId r \<in> set object_prototype_keys" by (simp add: group_step_Inl_iff)
    with Inl show ?thesis by (cases e) simp
  next
    case (Inr acc')
    have notp: "ruleId r \<notin> set object_prototype_keys"
    proof
      assume p: "ruleId r \<in> set object_prototype_keys"
      with Cons.prems have "ruleId r \<notin> fst ` set acc" by blast
      with p have "group_step acc r = Inl TypeError" by (simp add: group_step_Inl_iff)
      with Inr show False by simp
    qed
    have "fst ` set acc' \<inter> set object_prototype_keys = {}"
      using Cons.prems notp by (simp add: keys_group_step [OF Inr])
    then have "group_reduce acc' rs = Inl TypeError
                 \<longleftrightarrow> (\<exists>r \<in> set rs. ruleId r \<in> set object_prototype_keys)"
      by (rule Cons.IH)
    with Inr notp show ?thesis by simp
  qed
qed

lemma grouped_fails_iff:
  "grouped rn = Inl TypeError
     \<longleftrightarrow> (\<exists>r \<in> set (run_results rn). ruleId r \<in> set object_prototype_keys)"
  by (simp add: grouped_def group_reduce_fails_iff)

lemma grouped_succeeds_iff:
  "(\<exists>st. grouped rn = Inr st)
     \<longleftrightarrow> (\<forall>r \<in> set (run_results rn). ruleId r \<notin> set object_prototype_keys)"
proof -
  have "(\<exists>st. grouped rn = Inr st) \<longleftrightarrow> grouped rn \<noteq> Inl TypeError"
    by (cases "grouped rn") (auto intro: js_error.exhaust)
  then show ?thesis by (simp add: grouped_fails_iff)
qed

text \<open>
  When the grouping returns, its groups partition the input: the keys are distinct and
  are exactly the rule ids that occur, the group of a key is the sub-sequence of the
  findings with that rule id in input order, and the sizes add up to the input length.
  It returns exactly when no finding's rule id names a member of \<^verbatim>\<open>Object.prototype\<close>
  (lemma \<open>grouped_succeeds_iff\<close>).
\<close>

lemma grouped_partition:
  assumes "grouped rn = Inr st"
  shows "distinct (map fst st)"
    and "fst ` set st = ruleId ` set (run_results rn)"
    and "(k, its) \<in> set st \<Longrightarrow> its = filter (\<lambda>r. ruleId r = k) (run_results rn) \<and> its \<noteq> []"
    and "group_sizes st = length (run_results rn)"
proof -
  from assms have red: "group_reduce [] (run_results rn) = Inr st" by (simp add: grouped_def)
  show d: "distinct (map fst st)" using red by (rule distinct_group_reduce) simp
  have m: "map_of st k = (let new = filter (\<lambda>r. ruleId r = k) (run_results rn)
                          in if new = [] then None else Some new)" for k
    using map_of_group_reduce [OF red, of k] by (simp add: Let_def)
  show "fst ` set st = ruleId ` set (run_results rn)"
  proof -
    have "k \<in> fst ` set st \<longleftrightarrow> k \<in> ruleId ` set (run_results rn)" for k
    proof -
      have "k \<in> fst ` set st \<longleftrightarrow> map_of st k \<noteq> None" by (simp add: map_of_eq_None_iff)
      also have "\<dots> \<longleftrightarrow> filter (\<lambda>r. ruleId r = k) (run_results rn) \<noteq> []"
        by (simp add: m Let_def)
      also have "\<dots> \<longleftrightarrow> k \<in> ruleId ` set (run_results rn)"
        by (auto simp: filter_empty_conv)
      finally show ?thesis .
    qed
    then show ?thesis by blast
  qed
  show "its = filter (\<lambda>r. ruleId r = k) (run_results rn) \<and> its \<noteq> []" if "(k, its) \<in> set st"
  proof -
    have "map_of st k = Some its" using d that by (rule map_of_is_SomeI)
    then show ?thesis by (auto simp: m Let_def split: if_splits)
  qed
  show "group_sizes st = length (run_results rn)"
    using group_sizes_reduce [OF red] by (simp add: group_sizes_def)
qed

text \<open>
  C6 does not hold for every sequence of findings: for the findings with rule ids \<open>R1\<close>
  and \<open>constructor\<close> the grouping throws a \<^verbatim>\<open>TypeError\<close> and no dataset is stored, so
  there are no groups at all.
\<close>

theorem finding_store_inherited_key:
  "grouped example_run_inherited = Inl TypeError
   \<and> handleFileUpload [None, None, None] \<lparr>version = ''2.1.0'', runs = [example_run_inherited]\<rparr> 0
       = Inl TypeError"
  by (simp add: handleFileUpload_def grouped_def example_run_inherited_def group_step_def
      obj_get_def object_prototype_keys_def mk_result_def)

section \<open>The two category resolvers (C2)\<close>

lemma resolvers_agree_without_prefix:
  assumes "find hasCWEPrefix tgs = None"
  shows "getCWEFromTags_table tgs = None" and "getCWEFromTags tgs = None"
  using assms by (simp_all add: getCWEFromTags_table_def getCWEFromTags_def)

lemma isDigit_not_C: "isDigit c \<Longrightarrow> c \<noteq> CHR ''C''"
  by (auto simp: isDigit_def)

lemma isDigit_not_space: "isDigit c \<Longrightarrow> \<not> isSpace c"
  by (auto simp: isDigit_def isSpace_def)

lemma js_replace_digits:
  assumes "list_all isDigit ds"
  shows "js_replace ''CWE:'' ''CWE-'' ds = ds"
  using assms by (induction ds) (auto simp: startsWith_def dest: isDigit_not_C)

lemma trim_category:
  assumes "ds \<noteq> []" and "list_all isDigit ds"
  shows "trim (''CWE-'' @ ds) = ''CWE-'' @ ds"
proof -
  have "\<not> isSpace (last ds)"
    using assms by (simp add: list_all_iff isDigit_not_space)
  then have "dropWhile isSpace (rev ds @ ''-EWC'') = rev ds @ ''-EWC''"
    using assms(1) by (cases ds rule: rev_cases) simp_all
  then show ?thesis by (simp add: trim_def isSpace_def)
qed

lemma regex_match_category:
  assumes "ds \<noteq> []" and "list_all isDigit ds" and "sep = CHR ''-'' \<or> sep = CHR '':''"
  shows "regex_match (''CWE'' @ sep # ds) = Some ds"
proof -
  have tw: "takeWhile isDigit ds = ds" using assms(2) by (simp add: list_all_iff)
  have "match_here (''CWE'' @ sep # ds) = Some ds"
    using assms(1,3) by (simp add: match_here_def tw)
  then show ?thesis by simp
qed

lemma resolvers_agree_on_plain_tag:
  assumes "find hasCWEPrefix tgs = Some (''CWE'' @ sep # ds)"
    and "sep = CHR ''-'' \<or> sep = CHR '':''" and "ds \<noteq> []" and "list_all isDigit ds"
  shows "getCWEFromTags_table tgs = Some (''CWE-'' @ ds)"
    and "getCWEFromTags tgs = Some (''CWE-'' @ ds)"
proof -
  have r: "js_replace ''CWE:'' ''CWE-'' (''CWE'' @ sep # ds) = ''CWE-'' @ ds"
    using assms(2) by (auto simp: startsWith_def js_replace_digits [OF assms(4)])
  have t: "trim (''CWE-'' @ ds) = ''CWE-'' @ ds"
    using assms(3,4) by (rule trim_category)
  have "getCWEFromTags_table tgs = Some (trim (js_replace ''CWE:'' ''CWE-'' (''CWE'' @ sep # ds)))"
    using assms(1) by (simp add: getCWEFromTags_table_def)
  then show "getCWEFromTags_table tgs = Some (''CWE-'' @ ds)"
    by (simp only: r t)
  have m: "regex_match (''CWE'' @ sep # ds) = Some ds"
    using assms(3,4,2) by (rule regex_match_category)
  have "getCWEFromTags tgs
          = (case regex_match (''CWE'' @ sep # ds) of None \<Rightarrow> None | Some d \<Rightarrow> Some (''CWE-'' @ d))"
    using assms(1) by (simp add: getCWEFromTags_def)
  then show "getCWEFromTags tgs = Some (''CWE-'' @ ds)"
    by (simp only: m option.case)
qed

text \<open>
  C2 fails on the code: the two resolvers differ. For the tag \<open>CWE-\<close> (prefix, no digits)
  the per-rule summary shows the category \<open>CWE-\<close> where the comparison path resolves
  none; for the tag \<open>CWE-79: XSS\<close> the summary shows the whole tag where the comparison
  path resolves \<open>CWE-79\<close>. The same holds for the rules \<open>R5\<close> and \<open>R6\<close> of a run that
  carry these tags.
\<close>

theorem summary_category_differs:
  "getCWEFromTags_table [''CWE-''] = Some ''CWE-'' \<and> getCWEFromTags [''CWE-''] = None
   \<and> getCWEFromTags_table [''CWE-79: XSS''] = Some ''CWE-79: XSS''
   \<and> getCWEFromTags [''CWE-79: XSS''] = Some ''CWE-79''
   \<and> row_cwe (summary_row (Some example_run_tags) (''R5'', [mk_result ''R5'' None])) = ''CWE-''
   \<and> category_of example_run_tags ''R5'' = None
   \<and> row_cwe (summary_row (Some example_run_tags) (''R6'', [mk_result ''R6'' None]))
       = ''CWE-79: XSS''
   \<and> category_of example_run_tags ''R6'' = Some ''CWE-79''"
  by code_simp

section \<open>Rule-level severity (C10)\<close>

lemma map_of_config_step:
  "map_of (config_step acc q) k = (if recorded k q then rule_default_level q else map_of acc k)"
  by (auto simp: config_step_def recorded_def update_conv' split: option.splits)

lemma map_of_foldl_config_step:
  "map_of (foldl config_step acc rs) k =
     (case find (recorded k) (rev rs) of None \<Rightarrow> map_of acc k | Some q \<Rightarrow> rule_default_level q)"
  by (induction rs rule: rev_induct) (simp_all add: map_of_config_step)

lemma map_of_ruleConfigurations:
  "map_of (ruleConfigurations rn) rid = default_level_of rn rid"
  by (simp add: ruleConfigurations_def default_level_of_def map_of_foldl_config_step
      split: option.splits)

lemma find_SomeD:
  assumes "find P xs = Some x"
  shows "x \<in> set xs" and "P x"
  using assms by (induction xs) (auto split: if_splits)

lemma default_level_of_nonempty:
  assumes "default_level_of rn rid = Some l"
  shows "l \<noteq> []"
proof -
  from assms obtain rs q where f: "find (recorded rid) (rev rs) = Some q"
    and l: "rule_default_level q = Some l"
    by (auto simp: default_level_of_def split: option.splits)
  from f have "recorded rid q" by (rule find_SomeD(2))
  with l show ?thesis by (simp add: recorded_def)
qed

lemma default_level_of_unique:
  assumes "rules rn = Some rs" and "distinct (map rule_id rs)" and "q \<in> set rs"
    and "rule_id q = rid" and "rid \<noteq> []" and "rid \<noteq> ''__proto__''"
  shows "default_level_of (Some rn) rid =
           (case rule_default_level q of None \<Rightarrow> None | Some l \<Rightarrow> if l \<noteq> [] then Some l else None)"
proof -
  from assms(2) have inj: "inj_on rule_id (set rs)" by (simp add: distinct_map)
  have only: "q' = q" if "q' \<in> set rs" and "rule_id q' = rid" for q'
    using that assms(3,4) inj by (auto dest: inj_onD)
  show ?thesis
  proof (cases "recorded rid q")
    case True
    then have "\<exists>x \<in> set (rev rs). recorded rid x" using assms(3) by auto
    then obtain q' where f: "find (recorded rid) (rev rs) = Some q'"
      by (cases "find (recorded rid) (rev rs)") (auto simp: find_None_iff)
    then have "q' \<in> set rs" and "recorded rid q'"
      by (auto dest: find_SomeD)
    then have "q' = q" using only by (simp add: recorded_def)
    with f True show ?thesis
      by (auto simp: default_level_of_def assms(1) recorded_def split: option.splits)
  next
    case False
    have "find (recorded rid) (rev rs) = None"
    proof -
      have "\<not> recorded rid q'" if "q' \<in> set rs" for q'
        using that False only by (auto simp: recorded_def)
      then show ?thesis by (simp add: find_None_iff)
    qed
    with False show ?thesis
      using assms(4-6)
      by (auto simp: default_level_of_def assms(1) recorded_def split: option.splits)
  qed
qed

lemma config_or_none_recorded:
  assumes "rid \<notin> set object_prototype_keys"
  shows "config_or_none (ruleConfigurations rn) rid
           = Sev (case default_level_of rn rid of None \<Rightarrow> ''none'' | Some l \<Rightarrow> l)"
  using assms default_level_of_nonempty [of rn rid]
  by (auto simp: config_or_none_def obj_get_def map_of_ruleConfigurations split: option.splits)

lemma rule_severity_Cons:
  "rule_severity cfg rid (f # rest) =
     (case level f of
        None \<Rightarrow> config_or_none cfg rid
      | Some l \<Rightarrow> if l \<noteq> [] then Sev l else config_or_none cfg rid)"
  by (simp add: rule_severity_def first_level_def)

lemma store_key_not_inherited:
  assumes "grouped rn = Inr store" and "(rid, its) \<in> set store"
  shows "rid \<notin> set object_prototype_keys"
proof -
  from assms(2) have "rid \<in> fst ` set store" by force
  then have "rid \<in> ruleId ` set (run_results rn)"
    by (simp add: grouped_partition(2) [OF assms(1)])
  moreover have "\<forall>r \<in> set (run_results rn). ruleId r \<notin> set object_prototype_keys"
    using assms(1) grouped_succeeds_iff [of rn] by blast
  ultimately show ?thesis by auto
qed

lemma rule_severity_store:
  assumes "rid \<notin> set object_prototype_keys"
  shows "rule_severity (ruleConfigurations rn) rid (f # rest)
           = Sev (let recorded_or_none =
                        (case default_level_of rn rid of None \<Rightarrow> ''none'' | Some l \<Rightarrow> l)
                  in case level f of
                       None \<Rightarrow> recorded_or_none
                     | Some l \<Rightarrow> if l \<noteq> [] then l else recorded_or_none)"
  by (simp add: rule_severity_Cons config_or_none_recorded [OF assms] Let_def split: option.splits)

lemma sortedEntries_store:
  assumes "grouped rn = Inr store"
  shows "sortedEntries store (Some rn)
           = Inr (sort_key (entry_weight (ruleConfigurations (Some rn))) (object_entries store))"
proof -
  have "rule_severity (ruleConfigurations (Some rn)) (fst e) (snd e) \<noteq> SevInherited"
    if "e \<in> set (object_entries store)" for e
  proof -
    from that have m: "(fst e, snd e) \<in> set store" by (simp add: set_object_entries)
    then have k: "fst e \<notin> set object_prototype_keys"
      using assms by (intro store_key_not_inherited)
    from m have "snd e \<noteq> []" using grouped_partition(3) [OF assms] by blast
    then obtain f rest where "snd e = f # rest" by (cases "snd e") auto
    then show ?thesis by (simp add: rule_severity_store [OF k])
  qed
  then show ?thesis by (simp add: sortedEntries_def Let_def list_ex_iff)
qed

lemma example_R1_member:
  "(''R1'', [mk_result ''R1'' None, mk_result ''R1'' (Some ''error'')]) \<in> set example_store1"
  by (simp add: example_store1_def)

lemma recorded_iff:
  "recorded rid q \<longleftrightarrow>
     rule_id q = rid \<and> rid \<noteq> [] \<and> rid \<noteq> ''__proto__''
     \<and> (\<exists>c d. defaultConfiguration q = Some c \<and> cfg_level c = Some d \<and> d \<noteq> [])"
  by (auto simp: recorded_def rule_default_level_def split: option.splits)

lemma default_level_of_last:
  assumes "rules rn = Some (pre @ q # post)" and "recorded rid q"
    and "\<forall>q' \<in> set post. \<not> recorded rid q'"
    and "defaultConfiguration q = Some c" and "cfg_level c = Some d"
  shows "default_level_of (Some rn) rid = Some d"
proof -
  have "find (recorded rid) (rev (pre @ q # post)) = Some q"
    using assms(2,3) by (intro find_first [where pre = "rev post" and post = "rev pre"]) auto
  then show ?thesis
    by (simp add: default_level_of_def assms(1,4,5) rule_default_level_def)
qed

lemma default_level_of_none:
  assumes "rid = [] \<or> rules rn = None
           \<or> (\<exists>rs. rules rn = Some rs \<and> (\<forall>q' \<in> set rs. \<not> recorded rid q'))"
  shows "default_level_of (Some rn) rid = None"
proof (cases "rules rn")
  case None
  then show ?thesis by (simp add: default_level_of_def)
next
  case (Some rs)
  have "\<forall>q' \<in> set rs. \<not> recorded rid q'"
    using assms Some by (auto simp: recorded_def)
  then have "find (recorded rid) (rev rs) = None" by (simp add: find_None_iff)
  then show ?thesis by (simp add: default_level_of_def Some)
qed

lemma getSeverityWeight_examples:
  "getSeverityWeight ''error'' = 0" "getSeverityWeight ''Warning'' = 1"
  "getSeverityWeight ''INFO'' = 2" "getSeverityWeight ''note'' = 3"
  "getSeverityWeight ''none'' = 4"
  by code_simp+

lemma sortedEntries_sorted:
  assumes "grouped rn = Inr store"
  shows "\<exists>es. sortedEntries store (Some rn) = Inr es \<and> set es = set store
              \<and> sorted (map (entry_weight (ruleConfigurations (Some rn))) es)"
  by (simp add: sortedEntries_store [OF assms] set_object_entries)

text \<open>
  C10, as amended. For a rule group of a Finding Store, the rule-level severity is
  determined by the group's first finding: it is that finding's level when present and
  non-empty; otherwise, when the rule id is non-empty, the non-empty
  \<open>defaultConfiguration\<close> level of the last rule of the rule list that has this id and
  such a level; otherwise \<open>none\<close> (in particular for the empty rule id). Replacing the
  later findings of the group changes nothing. The export row carries this severity, and
  the sort key of the group is its weight (\<open>error\<close> 0, \<open>warning\<close> 1, \<open>info\<close> 2,
  \<open>note\<close> 3, anything else 4, case-insensitive), by which the entries are sorted.
\<close>

theorem rule_severity_first_finding:
  assumes "grouped rn = Inr store" and "(rid, its) \<in> set store"
  shows "its \<noteq> []
     \<and> (level (hd its) = Some l \<and> l \<noteq> [] \<longrightarrow>
          rule_severity (ruleConfigurations (Some rn)) rid its = Sev l)
     \<and> (level (hd its) = None \<or> level (hd its) = Some [] \<longrightarrow>
          (rules rn = Some (pre @ q # post) \<and> rule_id q = rid \<and> rid \<noteq> []
             \<and> defaultConfiguration q = Some c \<and> cfg_level c = Some d \<and> d \<noteq> []
             \<and> (\<forall>q' \<in> set post. rule_id q' = rid \<longrightarrow>
                   \<not> (\<exists>c' d'. defaultConfiguration q' = Some c' \<and> cfg_level c' = Some d'
                               \<and> d' \<noteq> []))
           \<longrightarrow> rule_severity (ruleConfigurations (Some rn)) rid its = Sev d)
        \<and> (rid = [] \<or> rules rn = None
             \<or> (\<exists>rs. rules rn = Some rs
                   \<and> (\<forall>q' \<in> set rs. rule_id q' = rid \<longrightarrow>
                         \<not> (\<exists>c' d'. defaultConfiguration q' = Some c' \<and> cfg_level c' = Some d'
                                     \<and> d' \<noteq> [])))
           \<longrightarrow> rule_severity (ruleConfigurations (Some rn)) rid its = Sev ''none''))
     \<and> (\<forall>rest. rule_severity (ruleConfigurations (Some rn)) rid (hd its # rest)
                 = rule_severity (ruleConfigurations (Some rn)) rid its)
     \<and> row_severity (summary_row (Some rn) (rid, its))
         = rule_severity (ruleConfigurations (Some rn)) rid its
     \<and> (\<forall>s. rule_severity (ruleConfigurations (Some rn)) rid its = Sev s \<longrightarrow>
              entry_weight (ruleConfigurations (Some rn)) (rid, its) = getSeverityWeight s)
     \<and> getSeverityWeight ''error'' = 0 \<and> getSeverityWeight ''Warning'' = 1
     \<and> getSeverityWeight ''INFO'' = 2 \<and> getSeverityWeight ''note'' = 3
     \<and> getSeverityWeight ''none'' = 4
     \<and> (\<exists>es. sortedEntries store (Some rn) = Inr es \<and> set es = set store
              \<and> sorted (map (entry_weight (ruleConfigurations (Some rn))) es))"
proof -
  let ?cfg = "ruleConfigurations (Some rn)"
  have k: "rid \<notin> set object_prototype_keys"
    using assms by (rule store_key_not_inherited)
  then have proto: "rid \<noteq> ''__proto__''" by (auto simp: object_prototype_keys_def)
  have ne: "its \<noteq> []" using grouped_partition(3) [OF assms] by (rule conjunct2)
  then obtain f rest0 where its: "its = f # rest0" by (cases its) auto
  have sev: "rule_severity ?cfg rid (f # rest)
         = Sev (let recorded_or_none =
                      (case default_level_of (Some rn) rid of None \<Rightarrow> ''none'' | Some l \<Rightarrow> l)
                in case level f of
                     None \<Rightarrow> recorded_or_none
                   | Some l \<Rightarrow> if l \<noteq> [] then l else recorded_or_none)" for rest
    using k by (rule rule_severity_store)
  have own: "rule_severity ?cfg rid its = Sev l" if "level (hd its) = Some l" "l \<noteq> []"
    using that by (simp add: its sev)
  have fallback: "rule_severity ?cfg rid its
                    = Sev (case default_level_of (Some rn) rid of None \<Rightarrow> ''none'' | Some l \<Rightarrow> l)"
    if "level (hd its) = None \<or> level (hd its) = Some []"
    using that by (auto simp: its sev)
  have last: "rule_severity ?cfg rid its = Sev d"
    if "level (hd its) = None \<or> level (hd its) = Some []"
      and "rules rn = Some (pre @ q # post)" "rule_id q = rid" "rid \<noteq> []"
      "defaultConfiguration q = Some c" "cfg_level c = Some d" "d \<noteq> []"
      "\<forall>q' \<in> set post. rule_id q' = rid \<longrightarrow>
          \<not> (\<exists>c' d'. defaultConfiguration q' = Some c' \<and> cfg_level c' = Some d' \<and> d' \<noteq> [])"
  proof -
    have "recorded rid q" using that(3-7) proto by (simp add: recorded_iff)
    moreover have "\<forall>q' \<in> set post. \<not> recorded rid q'"
      using that(8) by (auto simp: recorded_iff)
    ultimately have "default_level_of (Some rn) rid = Some d"
      using that(2,5,6) by (intro default_level_of_last [where q = q and c = c]) auto
    then show ?thesis by (simp add: fallback [OF that(1)])
  qed
  have none: "rule_severity ?cfg rid its = Sev ''none''"
    if "level (hd its) = None \<or> level (hd its) = Some []"
      and "rid = [] \<or> rules rn = None
             \<or> (\<exists>rs. rules rn = Some rs
                   \<and> (\<forall>q' \<in> set rs. rule_id q' = rid \<longrightarrow>
                         \<not> (\<exists>c' d'. defaultConfiguration q' = Some c' \<and> cfg_level c' = Some d'
                                     \<and> d' \<noteq> [])))"
  proof -
    have "rid = [] \<or> rules rn = None
           \<or> (\<exists>rs. rules rn = Some rs \<and> (\<forall>q' \<in> set rs. \<not> recorded rid q'))"
      using that(2) by (auto simp: recorded_iff)
    then have "default_level_of (Some rn) rid = None" by (rule default_level_of_none)
    then show ?thesis by (simp add: fallback [OF that(1)])
  qed
  have same: "rule_severity ?cfg rid (hd its # rest) = rule_severity ?cfg rid its" for rest
    by (simp only: its list.sel sev)
  have row: "row_severity (summary_row (Some rn) (rid, its)) = rule_severity ?cfg rid its"
    by (simp add: summary_row_def Let_def)
  have weight: "entry_weight ?cfg (rid, its) = getSeverityWeight s"
    if "rule_severity ?cfg rid its = Sev s" for s
    using that by (simp add: entry_weight_def severity_weight_def)
  show ?thesis
    using ne own last none same row weight getSeverityWeight_examples
      sortedEntries_sorted [OF assms(1)]
    by (intro conjI impI allI; (elim conjE)?) blast+
qed


theorem rule_severity_first_finding_witness:
  "grouped example_run1 = Inr example_store1
   \<and> (''R1'', [mk_result ''R1'' None, mk_result ''R1'' (Some ''error'')]) \<in> set example_store1
   \<and> level (hd [mk_result ''R1'' None, mk_result ''R1'' (Some ''error'')]) = None
   \<and> rules example_run1
       = Some ([] @ mk_rule ''R1'' (Some ''warning'') [''security'', ''CWE-79''] # [])
   \<and> defaultConfiguration (mk_rule ''R1'' (Some ''warning'') [''security'', ''CWE-79''])
       = Some \<lparr>cfg_level = Some ''warning''\<rparr>
   \<and> rule_severity (ruleConfigurations (Some example_run1)) ''R1''
        [mk_result ''R1'' None, mk_result ''R1'' (Some ''error'')] = Sev ''warning''
   \<and> entry_weight (ruleConfigurations (Some example_run1))
        (''R1'', [mk_result ''R1'' None, mk_result ''R1'' (Some ''error'')]) = 1"
proof -
  note inst = rule_severity_first_finding [OF example_grouped1 example_R1_member,
      where pre = "[]" and q = "mk_rule ''R1'' (Some ''warning'') [''security'', ''CWE-79'']"
        and post = "[]" and c = "\<lparr>cfg_level = Some ''warning''\<rparr>" and d = "''warning''"]
  have sev: "rule_severity (ruleConfigurations (Some example_run1)) ''R1''
          [mk_result ''R1'' None, mk_result ''R1'' (Some ''error'')] = Sev ''warning''"
    using inst by (simp add: mk_result_def mk_rule_def example_run1_def)
  have "entry_weight (ruleConfigurations (Some example_run1))
          (''R1'', [mk_result ''R1'' None, mk_result ''R1'' (Some ''error'')])
        = getSeverityWeight ''warning''"
    using inst sev by blast
  then have w: "entry_weight (ruleConfigurations (Some example_run1))
          (''R1'', [mk_result ''R1'' None, mk_result ''R1'' (Some ''error'')]) = 1"
    by (simp add: getSeverityWeight_def toLowerCase_def lower_char_def)
  show ?thesis
    using sev w example_grouped1 example_R1_member
    by (simp add: mk_result_def mk_rule_def example_run1_def)
qed

text \<open>
  C10 as stated fails for a rule with the empty id: the rule has the default level
  \<open>error\<close> and the first finding of its group has no level, yet the severity is \<open>none\<close>.
\<close>

theorem rule_severity_empty_id_counterexample:
  "grouped example_run_empty_id = Inr [([], [mk_result [] None])]
   \<and> rules example_run_empty_id = Some [mk_rule [] (Some ''error'') []]
   \<and> rule_id (mk_rule [] (Some ''error'') []) = ruleId (mk_result [] None)
   \<and> defaultConfiguration (mk_rule [] (Some ''error'') []) = Some \<lparr>cfg_level = Some ''error''\<rparr>
   \<and> level (mk_result [] None) = None
   \<and> rule_severity (ruleConfigurations (Some example_run_empty_id)) [] [mk_result [] None]
       = Sev ''none''
   \<and> rule_severity (ruleConfigurations (Some example_run_empty_id)) [] [mk_result [] None]
       \<noteq> Sev ''error''"
  by code_simp

section \<open>Category keys are never inherited names\<close>

lemma getCWEFromTags_form:
  assumes "getCWEFromTags tgs = Some c"
  shows "\<exists>ds. c = ''CWE-'' @ ds"
  using assms by (auto simp: getCWEFromTags_def split: option.splits if_splits)

lemma cwe_key_not_inherited:
  assumes "getCWEFromTags tgs = Some c"
  shows "c \<notin> set object_prototype_keys"
proof -
  from assms obtain ds where "c = ''CWE-'' @ ds" using getCWEFromTags_form by blast
  then show ?thesis by (simp add: object_prototype_keys_def)
qed

lemma allCWEs_not_inherited:
  assumes "c \<in> set (allCWEs sarifs)"
  shows "c \<notin> set object_prototype_keys"
proof -
  from assms obtain s where "s \<in> set sarifs"
    and "c \<in> fst ` set (groupByCWE (results s) (run s))"
    unfolding set_allCWEs by (rule UN_E)
  then obtain e where "category_of (run s) (fst e) = Some c"
    by (auto simp: keys_groupByCWE)
  then show ?thesis by (auto simp: category_of_def dest: cwe_key_not_inherited)
qed

end
